theory Spec2Isabelle
  imports Complex_Main "HOL-Library.Word"
begin

unbundle bit_operations_syntax

section \<open>Outcomes of a C call\<close>

text \<open>
  A C function of the library either returns, or it does not: an \<open>assert\<close> aborts
  the process, or the call leaves the defined behaviour of the language (an array is
  indexed outside its bounds, a null pointer is dereferenced, a shift count reaches
  the width of the shifted type, a \<open>double\<close> that no \<open>int32_t\<close> can hold is
  converted to one), or it uses a value that the C library leaves unspecified. Each of
  these is a value of \<open>fault\<close>; a call that returns \<open>v\<close> is \<open>Inr v\<close>.
\<close>

datatype fault =
    OutOfBounds
  | NullDereference
  | ShiftOutOfRange
  | AssertionFailed
  | ConversionOutOfRange
  | UnspecifiedValue

definition bnd :: "fault + 'a \<Rightarrow> ('a \<Rightarrow> fault + 'b) \<Rightarrow> fault + 'b" where
  "bnd m f = (case m of Inl e \<Rightarrow> Inl e | Inr x \<Rightarrow> f x)"

text \<open>\<open>xs[i]\<close> as an rvalue, \<open>xs[i] = v\<close>, and the compound assignment \<open>xs[i] op= e\<close>.\<close>

definition rd :: "'a list \<Rightarrow> nat \<Rightarrow> fault + 'a" where
  "rd xs i = (if i < length xs then Inr (xs ! i) else Inl OutOfBounds)"

definition wr :: "'a list \<Rightarrow> nat \<Rightarrow> 'a \<Rightarrow> fault + 'a list" where
  "wr xs i v = (if i < length xs then Inr (xs[i := v]) else Inl OutOfBounds)"

definition upd :: "'a list \<Rightarrow> nat \<Rightarrow> ('a \<Rightarrow> 'a) \<Rightarrow> fault + 'a list" where
  "upd xs i f = (if i < length xs then Inr (xs[i := f (xs ! i)]) else Inl OutOfBounds)"

text \<open>\<open>for (i = lo; i < n; i++) body\<close>, stopping at the first fault.\<close>

function for_loop :: "nat \<Rightarrow> nat \<Rightarrow> (nat \<Rightarrow> 's \<Rightarrow> fault + 's) \<Rightarrow> 's \<Rightarrow> fault + 's" where
  "for_loop i n body s =
     (if i < n
      then (case body i s of Inl e \<Rightarrow> Inl e | Inr s' \<Rightarrow> for_loop (Suc i) n body s')
      else Inr s)"
  by pat_completeness auto
termination
  by (relation "measure (\<lambda>(i, n, body, s). n - i)") auto

declare for_loop.simps [simp del]

text \<open>
  \<open>assert(cond)\<close>: nothing when the translation unit is compiled with \<open>NDEBUG\<close>,
  otherwise an abort when \<open>cond\<close> is false. The functions that assert take the
  build as their first argument \<open>ndebug\<close>.
\<close>

definition c_assert :: "bool \<Rightarrow> bool \<Rightarrow> fault + unit" where
  "c_assert ndebug cond = (if ndebug \<or> cond then Inr () else Inl AssertionFailed)"

text \<open>
  \<open>memcpy(dst, src, n * sizeof(T))\<close> (and \<open>memmove\<close>) on two distinct arrays, and
  \<open>memset(dst, 0, n * sizeof(T))\<close>.
\<close>

definition memset_n :: "'a list \<Rightarrow> 'a \<Rightarrow> nat \<Rightarrow> fault + 'a list" where
  "memset_n dst v n =
     (if n \<le> length dst then Inr (replicate n v @ drop n dst) else Inl OutOfBounds)"

definition memcpy_n :: "'a list \<Rightarrow> 'a list \<Rightarrow> nat \<Rightarrow> fault + 'a list" where
  "memcpy_n dst src n =
     (if n \<le> length dst \<and> n \<le> length src then Inr (take n src @ drop n dst)
      else Inl OutOfBounds)"

section \<open>32-bit integers\<close>

text \<open>
  \<open>int32_t\<close> and \<open>uint32_t\<close> values are 32-bit words; \<open>+\<close>, \<open>-\<close> and \<open>*\<close> wrap
  around. \<open>>>\<close> on an \<open>int32_t\<close> is the arithmetic shift. A shift by 32 or more is
  undefined in C.  Counters, lengths and indices are natural numbers; where the source
  subtracts on \<open>uint32_t\<close> below zero the wrap-around is written out.
\<close>

type_synonym int32 = "32 word"

definition sar32 :: "int32 \<Rightarrow> nat \<Rightarrow> fault + int32" where
  "sar32 x n = (if n < 32 then Inr (signed_drop_bit n x) else Inl ShiftOutOfRange)"

definition shl32 :: "int32 \<Rightarrow> nat \<Rightarrow> fault + int32" where
  "shl32 x n = (if n < 32 then Inr (push_bit n x) else Inl ShiftOutOfRange)"

definition u32_sub :: "nat \<Rightarrow> nat \<Rightarrow> nat" where
  "u32_sub a b = (a + 2 ^ 32 - b mod 2 ^ 32) mod 2 ^ 32"

text \<open>The cast \<open>(int32_t)n\<close> of a \<open>uint32_t\<close>.\<close>

definition int32_of_u32 :: "nat \<Rightarrow> int" where
  "int32_of_u32 n = (if n mod 2 ^ 32 < 2 ^ 31 then int (n mod 2 ^ 32) else int (n mod 2 ^ 32) - 2 ^ 32)"

text \<open>\<open>for (i = start; i >= 0; i--) body\<close> on a signed counter.\<close>

function for_down :: "int \<Rightarrow> (int \<Rightarrow> 's \<Rightarrow> fault + 's) \<Rightarrow> 's \<Rightarrow> fault + 's" where
  "for_down i body s =
     (if 0 \<le> i
      then (case body i s of Inl e \<Rightarrow> Inl e | Inr s' \<Rightarrow> for_down (i - 1) body s')
      else Inr s)"
  by pat_completeness auto
termination
  by (relation "measure (\<lambda>(i, body, s). nat (i + 1))") auto

declare for_down.simps [simp del]

section \<open>linne_utility.c\<close>

subsection \<open>LINNEUtility_RoundUp2PoweredSoft\<close>

definition LINNEUtility_RoundUp2PoweredSoft :: "32 word \<Rightarrow> 32 word" where
  "LINNEUtility_RoundUp2PoweredSoft val =
     (let v0 = val - 1;
          v1 = v0 OR drop_bit 1 v0;
          v2 = v1 OR drop_bit 2 v1;
          v3 = v2 OR drop_bit 4 v2;
          v4 = v3 OR drop_bit 8 v3;
          v5 = v4 OR drop_bit 16 v4
      in v5 + 1)"

subsection \<open>LINNEUtility_MSConversion, LINNEUtility_LRConversion\<close>

text \<open>
  \<open>buffer\<close> is the pair of channel arrays \<open>(buffer[0], buffer[1])\<close>, two distinct
  arrays. The loop body is the two compound assignments of the source, in their order.
\<close>

definition LINNEUtility_MSConversion ::
  "int32 list \<times> int32 list \<Rightarrow> nat \<Rightarrow> fault + (int32 list \<times> int32 list)" where
  "LINNEUtility_MSConversion buffer num_samples =
     for_loop 0 num_samples
       (\<lambda>smpl (b0, b1).
          bnd (rd b0 smpl) (\<lambda>l.
          bnd (upd b1 smpl (\<lambda>v. v - l)) (\<lambda>b1'.
          bnd (rd b1' smpl) (\<lambda>s.
          bnd (sar32 s 1) (\<lambda>h.
          bnd (upd b0 smpl (\<lambda>v. v + h)) (\<lambda>b0'.
          Inr (b0', b1')))))))
       buffer"

definition LINNEUtility_LRConversion ::
  "int32 list \<times> int32 list \<Rightarrow> nat \<Rightarrow> fault + (int32 list \<times> int32 list)" where
  "LINNEUtility_LRConversion buffer num_samples =
     for_loop 0 num_samples
       (\<lambda>smpl (b0, b1).
          bnd (rd b1 smpl) (\<lambda>s.
          bnd (sar32 s 1) (\<lambda>h.
          bnd (upd b0 smpl (\<lambda>v. v - h)) (\<lambda>b0'.
          bnd (rd b0' smpl) (\<lambda>l.
          bnd (upd b1 smpl (\<lambda>v. v + l)) (\<lambda>b1'.
          Inr (b0', b1')))))))
       buffer"

subsection \<open>The preemphasis filter\<close>

text \<open>
  \<open>LINNE_PREEMPHASIS_COEF_SHIFT\<close> is a macro of \<open>linne_internal.h\<close>; the functions
  take its value as their first argument \<open>coef_shift\<close>. The fields \<open>prev\<close> and
  \<open>coef\<close> of \<open>struct LINNEPreemphasisFilter\<close> are \<open>preem_prev\<close> and \<open>preem_coef\<close>.
\<close>

record LINNEPreemphasisFilter =
  preem_prev :: int32
  preem_coef :: int32

definition LINNEPreemphasisFilter_Preemphasis ::
  "nat \<Rightarrow> LINNEPreemphasisFilter \<Rightarrow> int32 list \<Rightarrow> nat
     \<Rightarrow> fault + (LINNEPreemphasisFilter \<times> int32 list)" where
  "LINNEPreemphasisFilter_Preemphasis coef_shift preem buffer num_samples =
     bnd (for_loop 0 num_samples
            (\<lambda>smpl (prev, buf).
               bnd (rd buf smpl) (\<lambda>tmp.
               bnd (sar32 (prev * preem_coef preem) coef_shift) (\<lambda>p.
               bnd (upd buf smpl (\<lambda>v. v - p)) (\<lambda>buf'.
               Inr (tmp, buf')))))
            (preem_prev preem, buffer))
       (\<lambda>(prev, buf). Inr (preem\<lparr>preem_prev := prev\<rparr>, buf))"

definition LINNEPreemphasisFilter_Deemphasis ::
  "nat \<Rightarrow> LINNEPreemphasisFilter \<Rightarrow> int32 list \<Rightarrow> nat
     \<Rightarrow> fault + (LINNEPreemphasisFilter \<times> int32 list)" where
  "LINNEPreemphasisFilter_Deemphasis coef_shift preem buffer num_samples =
     bnd (sar32 (preem_prev preem * preem_coef preem) coef_shift) (\<lambda>p0.
     bnd (upd buffer 0 (\<lambda>v. v + p0)) (\<lambda>buf0.
     bnd (for_loop 1 num_samples
            (\<lambda>smpl buf.
               bnd (rd buf (smpl - 1)) (\<lambda>b.
               bnd (sar32 (b * preem_coef preem) coef_shift) (\<lambda>p.
               upd buf smpl (\<lambda>v. v + p))))
            buf0) (\<lambda>buf.
     bnd (rd buf (u32_sub num_samples 1)) (\<lambda>lst.
     Inr (preem\<lparr>preem_prev := lst\<rparr>, buf)))))"

section \<open>lpc.c: the integer predictor and synthesizer\<close>

text \<open>
  The result codes that \<open>lpc.c\<close> returns (the enumeration is declared in \<open>lpc.h\<close>).
\<close>

datatype LPCApiResult =
    LPC_APIRESULT_OK
  | LPC_APIRESULT_INVALID_ARGUMENT
  | LPC_APIRESULT_EXCEED_MAX_ORDER
  | LPC_APIRESULT_EXCEED_MAX_NUM_SAMPLES
  | LPC_APIRESULT_FAILED_TO_CALCULATION

text \<open>
  A pointer argument is \<open>None\<close> when it is \<open>NULL\<close> and \<open>Some xs\<close> when it points to
  the array \<open>xs\<close>. The functions return the status together with the array behind
  their output pointer as the call leaves it. \<open>data\<close>, \<open>coef\<close> and \<open>residual\<close> are
  distinct arrays. In both functions the index \<open>smpl - ord - 1\<close> is read only where
  \<open>ord < smpl\<close>, so the subtraction never goes below zero.
\<close>

definition LPC_Predict ::
  "int32 list option \<Rightarrow> nat \<Rightarrow> int32 list option \<Rightarrow> nat \<Rightarrow> int32 list option \<Rightarrow> nat
     \<Rightarrow> fault + (LPCApiResult \<times> int32 list option)" where
  "LPC_Predict data num_samples coef coef_order residual coef_rshift =
     (case (data, coef, residual) of
        (Some d, Some c, Some r) \<Rightarrow>
          if coef_rshift = 0 then Inr (LPC_APIRESULT_INVALID_ARGUMENT, residual)
          else
            bnd (memcpy_n r d num_samples) (\<lambda>r0.
            bnd (for_loop 1 coef_order
                   (\<lambda>smpl res.
                      bnd (shl32 1 (coef_rshift - 1)) (\<lambda>p0.
                      bnd (for_loop 0 smpl
                             (\<lambda>ord predict.
                                bnd (rd c ord) (\<lambda>cv.
                                bnd (rd d (smpl - ord - 1)) (\<lambda>dv.
                                Inr (predict + cv * dv))))
                             p0) (\<lambda>predict.
                      bnd (sar32 predict coef_rshift) (\<lambda>q.
                      upd res smpl (\<lambda>v. v + q)))))
                   r0) (\<lambda>r1.
            bnd (for_loop coef_order num_samples
                   (\<lambda>smpl res.
                      bnd (shl32 1 (coef_rshift - 1)) (\<lambda>p0.
                      bnd (for_loop 0 coef_order
                             (\<lambda>ord predict.
                                bnd (rd c ord) (\<lambda>cv.
                                bnd (rd d (smpl - ord - 1)) (\<lambda>dv.
                                Inr (predict + cv * dv))))
                             p0) (\<lambda>predict.
                      bnd (sar32 predict coef_rshift) (\<lambda>q.
                      upd res smpl (\<lambda>v. v + q)))))
                   r1) (\<lambda>r2.
            Inr (LPC_APIRESULT_OK, Some r2))))
      | _ \<Rightarrow> Inr (LPC_APIRESULT_INVALID_ARGUMENT, residual))"

definition LPC_Synthesize ::
  "int32 list option \<Rightarrow> nat \<Rightarrow> int32 list option \<Rightarrow> nat \<Rightarrow> nat
     \<Rightarrow> fault + (LPCApiResult \<times> int32 list option)" where
  "LPC_Synthesize data num_samples coef coef_order coef_rshift =
     (case (data, coef) of
        (Some d, Some c) \<Rightarrow>
          if coef_rshift = 0 then Inr (LPC_APIRESULT_INVALID_ARGUMENT, data)
          else
            bnd (for_loop 1 coef_order
                   (\<lambda>smpl dat.
                      bnd (shl32 1 (coef_rshift - 1)) (\<lambda>p0.
                      bnd (for_loop 0 smpl
                             (\<lambda>ord predict.
                                bnd (rd c ord) (\<lambda>cv.
                                bnd (rd dat (smpl - ord - 1)) (\<lambda>dv.
                                Inr (predict + cv * dv))))
                             p0) (\<lambda>predict.
                      bnd (sar32 predict coef_rshift) (\<lambda>q.
                      upd dat smpl (\<lambda>v. v - q)))))
                   d) (\<lambda>d1.
            bnd (for_loop coef_order num_samples
                   (\<lambda>smpl dat.
                      bnd (shl32 1 (coef_rshift - 1)) (\<lambda>p0.
                      bnd (for_loop 0 coef_order
                             (\<lambda>ord predict.
                                bnd (rd c ord) (\<lambda>cv.
                                bnd (rd dat (smpl - ord - 1)) (\<lambda>dv.
                                Inr (predict + cv * dv))))
                             p0) (\<lambda>predict.
                      bnd (sar32 predict coef_rshift) (\<lambda>q.
                      upd dat smpl (\<lambda>v. v - q)))))
                   d1) (\<lambda>d2.
            Inr (LPC_APIRESULT_OK, Some d2)))
      | _ \<Rightarrow> Inr (LPC_APIRESULT_INVALID_ARGUMENT, data))"


section \<open>Double-precision values\<close>

text \<open>
  A \<open>double\<close> is a finite real number, one of the two infinities, or a NaN. The
  arithmetic on finite values is exact: rounding and overflow are not modelled, so
  the model agrees with the machine wherever the machine's results are exact (zeros,
  small integers, dyadic fractions) and idealises it elsewhere. The special values
  are modelled because the control flow of the source depends on them: a division of
  zero by zero is a NaN, every comparison with a NaN is false. IEEE has two zeros and
  the model has one, so the sign of an infinity that a division by a zero produces
  may differ from the machine's; nothing below depends on such a sign.
\<close>

datatype dbl = Fin real | PInf | NInf | NaN

instantiation dbl :: "{zero, one, plus, uminus, minus, times, inverse}"
begin

definition zero_dbl :: dbl where
  "zero_dbl = Fin 0"

definition one_dbl :: dbl where
  "one_dbl = Fin 1"

fun plus_dbl :: "dbl \<Rightarrow> dbl \<Rightarrow> dbl" where
  "plus_dbl (Fin a) (Fin b) = Fin (a + b)"
| "plus_dbl NaN y = NaN"
| "plus_dbl x NaN = NaN"
| "plus_dbl PInf NInf = NaN"
| "plus_dbl NInf PInf = NaN"
| "plus_dbl PInf y = PInf"
| "plus_dbl x PInf = PInf"
| "plus_dbl NInf y = NInf"
| "plus_dbl x NInf = NInf"

fun uminus_dbl :: "dbl \<Rightarrow> dbl" where
  "uminus_dbl (Fin a) = Fin (- a)"
| "uminus_dbl PInf = NInf"
| "uminus_dbl NInf = PInf"
| "uminus_dbl NaN = NaN"

definition minus_dbl :: "dbl \<Rightarrow> dbl \<Rightarrow> dbl" where
  "minus_dbl x y = (x :: dbl) + (- y)"

fun times_dbl :: "dbl \<Rightarrow> dbl \<Rightarrow> dbl" where
  "times_dbl (Fin a) (Fin b) = Fin (a * b)"
| "times_dbl NaN y = NaN"
| "times_dbl x NaN = NaN"
| "times_dbl PInf (Fin b) = (if b = 0 then NaN else if 0 < b then PInf else NInf)"
| "times_dbl NInf (Fin b) = (if b = 0 then NaN else if 0 < b then NInf else PInf)"
| "times_dbl (Fin a) PInf = (if a = 0 then NaN else if 0 < a then PInf else NInf)"
| "times_dbl (Fin a) NInf = (if a = 0 then NaN else if 0 < a then NInf else PInf)"
| "times_dbl PInf PInf = PInf"
| "times_dbl NInf NInf = PInf"
| "times_dbl PInf NInf = NInf"
| "times_dbl NInf PInf = NInf"

fun divide_dbl :: "dbl \<Rightarrow> dbl \<Rightarrow> dbl" where
  "divide_dbl (Fin a) (Fin b) =
     (if b \<noteq> 0 then Fin (a / b) else if a = 0 then NaN else if 0 < a then PInf else NInf)"
| "divide_dbl NaN y = NaN"
| "divide_dbl x NaN = NaN"
| "divide_dbl (Fin a) PInf = Fin 0"
| "divide_dbl (Fin a) NInf = Fin 0"
| "divide_dbl PInf (Fin b) = (if 0 \<le> b then PInf else NInf)"
| "divide_dbl NInf (Fin b) = (if 0 \<le> b then NInf else PInf)"
| "divide_dbl x y = NaN"

fun inverse_dbl :: "dbl \<Rightarrow> dbl" where
  "inverse_dbl (Fin a) = (if a \<noteq> 0 then Fin (1 / a) else PInf)"
| "inverse_dbl PInf = Fin 0"
| "inverse_dbl NInf = Fin 0"
| "inverse_dbl NaN = NaN"

instance ..

end

text \<open>The comparisons \<open><\<close>, \<open><=\<close> and \<open>>=\<close> of C on doubles.\<close>

fun dlt :: "dbl \<Rightarrow> dbl \<Rightarrow> bool" where
  "dlt (Fin a) (Fin b) = (a < b)"
| "dlt NaN y = False"
| "dlt x NaN = False"
| "dlt x NInf = False"
| "dlt PInf y = False"
| "dlt NInf y = True"
| "dlt x PInf = True"

fun dle :: "dbl \<Rightarrow> dbl \<Rightarrow> bool" where
  "dle (Fin a) (Fin b) = (a \<le> b)"
| "dle NaN y = False"
| "dle x NaN = False"
| "dle NInf y = True"
| "dle x PInf = True"
| "dle x NInf = False"
| "dle PInf y = False"

definition dge :: "dbl \<Rightarrow> dbl \<Rightarrow> bool" where
  "dge x y = dle y x"

text \<open>\<open>fabs\<close>, \<open>floor\<close> and \<open>sin\<close> of \<open>math.h\<close>.\<close>

fun dfabs :: "dbl \<Rightarrow> dbl" where
  "dfabs (Fin a) = Fin \<bar>a\<bar>"
| "dfabs PInf = PInf"
| "dfabs NInf = PInf"
| "dfabs NaN = NaN"

fun dfloor :: "dbl \<Rightarrow> dbl" where
  "dfloor (Fin a) = Fin (of_int \<lfloor>a\<rfloor>)"
| "dfloor x = x"

fun dsin :: "dbl \<Rightarrow> dbl" where
  "dsin (Fin a) = Fin (sin a)"
| "dsin x = NaN"

text \<open>
  \<open>pow(x, -2.0)\<close>: the reciprocal of the square; \<open>+inf\<close> at zero and zero at the
  infinities.
\<close>

fun dpow_minus2 :: "dbl \<Rightarrow> dbl" where
  "dpow_minus2 (Fin a) = (if a = 0 then PInf else Fin (1 / (a * a)))"
| "dpow_minus2 PInf = Fin 0"
| "dpow_minus2 NInf = Fin 0"
| "dpow_minus2 NaN = NaN"

text \<open>
  \<open>pow(2.0, n)\<close> for an integer \<open>n\<close>. Above the exponent range of a double the
  library function returns \<open>+inf\<close>, below it zero.
\<close>

definition dpow2 :: "int \<Rightarrow> dbl" where
  "dpow2 n = (if 1023 < n then PInf
              else if 0 \<le> n then Fin (2 ^ nat n)
              else if - 1074 \<le> n then Fin (1 / 2 ^ nat (- n))
              else Fin 0)"

text \<open>
  \<open>frexp(x, &e)\<close> stores the exponent \<open>e\<close> with \<open>x = m * 2^e\<close> and
  \<open>1/2 <= |m| < 1\<close>, and 0 for a zero. For an infinity or a NaN the stored value is
  unspecified.
\<close>

definition frexp_exp :: "dbl \<Rightarrow> fault + int" where
  "frexp_exp x =
     (case x of
        Fin a \<Rightarrow> Inr (if a = 0 then 0 else \<lfloor>log 2 \<bar>a\<bar>\<rfloor> + 1)
      | _ \<Rightarrow> Inl UnspecifiedValue)"

text \<open>
  The conversions between the integer types and \<open>double\<close>. A double converts to
  \<open>int32_t\<close> by truncation; the conversion is undefined when the truncated value is
  not an \<open>int32_t\<close>.
\<close>

definition dbl_of_nat :: "nat \<Rightarrow> dbl" where
  "dbl_of_nat n = Fin (real n)"

definition dbl_of_int32 :: "int32 \<Rightarrow> dbl" where
  "dbl_of_int32 w = Fin (real_of_int (sint w))"

definition int32_of_dbl :: "dbl \<Rightarrow> fault + int32" where
  "int32_of_dbl x =
     (case x of
        Fin a \<Rightarrow>
          (let t = (if 0 \<le> a then \<lfloor>a\<rfloor> else \<lceil>a\<rceil>)
           in if - (2 ^ 31) \<le> t \<and> t < 2 ^ 31 then Inr (word_of_int t)
              else Inl ConversionOutOfRange)
      | _ \<Rightarrow> Inl ConversionOutOfRange)"

text \<open>\<open>FLT_EPSILON\<close> of \<open>float.h\<close> (IEEE single precision), and \<open>LPC_PI\<close>.\<close>

definition FLT_EPSILON :: dbl where
  "FLT_EPSILON = Fin (1 / 2 ^ 23)"

definition LPC_PI :: dbl where
  "LPC_PI = Fin (31415926535897932384626433832795029 / 10 ^ 34)"


section \<open>lpc.c: the calculator\<close>

datatype LPCError =
    LPC_ERROR_OK
  | LPC_ERROR_NG
  | LPC_ERROR_SINGULAR_MATRIX
  | LPC_ERROR_INVALID_ARGUMENT

text \<open>
  The window kinds that \<open>lpc.c\<close> switches on (the enumeration is declared in
  \<open>lpc.h\<close>); \<open>LPC_WINDOWTYPE_OTHER\<close> is any value that is none of the three, which
  the \<open>switch\<close> sends to its \<open>default\<close>.
\<close>

datatype LPCWindowType =
    LPC_WINDOWTYPE_RECTANGULAR
  | LPC_WINDOWTYPE_SIN
  | LPC_WINDOWTYPE_WELCH
  | LPC_WINDOWTYPE_OTHER

text \<open>
  \<open>struct LPCCalculator\<close>, its fields prefixed with \<open>lpcc_\<close>; \<open>alloced_by_own\<close> and
  \<open>work\<close>, which only matter to \<open>LPCCalculator_Destroy\<close>, are left out. The two
  fields of \<open>struct LPCCalculatorConfig\<close> (declared in \<open>lpc.h\<close>) that \<open>lpc.c\<close> reads
  are prefixed with \<open>cfg_\<close>.
\<close>

record LPCCalculatorConfig =
  cfg_max_order :: nat
  cfg_max_num_samples :: nat

record LPCCalculator =
  lpcc_max_order :: nat
  lpcc_max_num_buffer_samples :: nat
  lpcc_a_vec :: "dbl list"
  lpcc_u_vec :: "dbl list"
  lpcc_v_vec :: "dbl list"
  lpcc_r_mat :: "dbl list list"
  lpcc_auto_corr :: "dbl list"
  lpcc_lpc_coef :: "dbl list"
  lpcc_parcor_coef :: "dbl list"
  lpcc_buffer :: "dbl list"

text \<open>
  \<open>LPCCalculator_Create\<close> carves the arrays out of the work area one after the
  other and initialises none of them. \<open>work\<close> is the part of the work area behind the
  handle and the table of row pointers, as the sequence of the doubles it holds when
  the function is called; a work area that is too small, a zero \<open>max_order\<close> and a zero
  \<open>max_num_samples\<close> are refused.
\<close>

definition LPCCalculator_Create :: "LPCCalculatorConfig \<Rightarrow> dbl list \<Rightarrow> LPCCalculator option" where
  "LPCCalculator_Create config work =
     (let mo = cfg_max_order config;
          mns = cfg_max_num_samples config;
          w1 = drop (mo + 2) work;
          w2 = drop (mo + 2) w1;
          w3 = drop (mo + 2) w2;
          w4 = drop (mo + 1) w3;
          w5 = drop (mo + 1) w4;
          w6 = drop (mo + 1) w5;
          w7 = drop ((mo + 1) * (mo + 1)) w6
      in if length work < (mo + 2) * 3 + (mo + 1) + (mo + 1) * 2 + (mo + 1) * (mo + 1) + mns
            \<or> mo = 0 \<or> mns = 0
         then None
         else Some \<lparr>
           lpcc_max_order = mo,
           lpcc_max_num_buffer_samples = mns,
           lpcc_a_vec = take (mo + 2) work,
           lpcc_u_vec = take (mo + 2) w1,
           lpcc_v_vec = take (mo + 2) w2,
           lpcc_r_mat = map (\<lambda>ord. take (mo + 1) (drop (ord * (mo + 1)) w6)) [0..<mo + 1],
           lpcc_auto_corr = take (mo + 1) w3,
           lpcc_lpc_coef = take (mo + 1) w4,
           lpcc_parcor_coef = take (mo + 1) w5,
           lpcc_buffer = take mns w7 \<rparr>)"

text \<open>\<open>m[i][j]\<close> as an rvalue and \<open>m[i][j] = v\<close> on a matrix of row arrays.\<close>

definition rd2 :: "'a list list \<Rightarrow> nat \<Rightarrow> nat \<Rightarrow> fault + 'a" where
  "rd2 m i j = bnd (rd m i) (\<lambda>row. rd row j)"

definition wr2 :: "'a list list \<Rightarrow> nat \<Rightarrow> nat \<Rightarrow> 'a \<Rightarrow> fault + 'a list list" where
  "wr2 m i j v = bnd (rd m i) (\<lambda>row. bnd (wr row j v) (\<lambda>row'. wr m i row'))"

subsection \<open>LPC_ApplyWindow\<close>

text \<open>
  The static functions are called with pointers that are not \<open>NULL\<close>: \<open>data\<close> is
  checked by every entry point, the others are fields of a created calculator. Their
  arguments are arrays, and the \<open>NULL\<close> checks at their heads, which cannot fire, are
  not modelled. \<open>num_samples - 1\<close> and \<open>num_samples - smpl - 1\<close> are \<open>uint32_t\<close>
  subtractions.
\<close>

definition LPC_ApplyWindow ::
  "LPCWindowType \<Rightarrow> dbl list \<Rightarrow> nat \<Rightarrow> dbl list \<Rightarrow> fault + (LPCError \<times> dbl list)" where
  "LPC_ApplyWindow window_type input num_samples output =
     (case window_type of
        LPC_WINDOWTYPE_RECTANGULAR \<Rightarrow>
          bnd (memcpy_n output input num_samples) (\<lambda>out. Inr (LPC_ERROR_OK, out))
      | LPC_WINDOWTYPE_SIN \<Rightarrow>
          bnd (for_loop 0 num_samples
                 (\<lambda>smpl out.
                    bnd (rd input smpl) (\<lambda>x.
                    wr out smpl
                      (x * dsin ((LPC_PI * dbl_of_nat smpl) / dbl_of_nat (u32_sub num_samples 1)))))
                 output)
            (\<lambda>out. Inr (LPC_ERROR_OK, out))
      | LPC_WINDOWTYPE_WELCH \<Rightarrow>
          (let divisor = Fin 4 * dpow_minus2 (dbl_of_nat (u32_sub num_samples 1))
           in bnd (for_loop 0 (num_samples div 2)
                     (\<lambda>smpl out.
                        let weight = divisor * dbl_of_nat smpl
                                       * dbl_of_nat (u32_sub (u32_sub num_samples 1) smpl)
                        in bnd (rd input smpl) (\<lambda>x.
                           bnd (wr out smpl (x * weight)) (\<lambda>out1.
                           bnd (rd input (u32_sub (u32_sub num_samples smpl) 1)) (\<lambda>y.
                           wr out1 (u32_sub (u32_sub num_samples smpl) 1) (y * weight)))))
                     output)
                (\<lambda>out. Inr (LPC_ERROR_OK, out)))
      | LPC_WINDOWTYPE_OTHER \<Rightarrow> Inr (LPC_ERROR_NG, output))"

subsection \<open>LPC_CalculateAutoCorrelation\<close>

text \<open>
  \<open>auto_corr\<close> is the array from the output pointer on. The loop
  \<open>for (l = 0; l < Llag2; l += lag2)\<close> runs over the multiples \<open>l = m * lag2\<close> with
  \<open>m < L\<close>. The products \<open>3 * lag\<close>, \<open>lag << 1\<close> and \<open>L * lag2\<close> are taken without
  wrap-around: they stay below \<open>2^32\<close> for every order below \<open>2^32 / 3\<close>. The bound
  \<open>num_samples - Llag2 - lag\<close> of the last loop is a \<open>uint32_t\<close> subtraction and
  wraps around when \<open>lag\<close> exceeds \<open>num_samples\<close>.
\<close>

definition LPC_CalculateAutoCorrelation ::
  "bool \<Rightarrow> dbl list \<Rightarrow> nat \<Rightarrow> dbl list \<Rightarrow> nat \<Rightarrow> fault + (LPCError \<times> dbl list)" where
  "LPC_CalculateAutoCorrelation ndebug data num_samples auto_corr order =
     bnd (c_assert ndebug (num_samples \<ge> order)) (\<lambda>_.
     bnd (for_loop 0 order (\<lambda>i ac. wr ac i 0) auto_corr) (\<lambda>ac0.
     bnd (for_loop 0 num_samples
            (\<lambda>i ac. bnd (rd data i) (\<lambda>d. upd ac 0 (\<lambda>v. v + d * d)))
            ac0) (\<lambda>ac1.
     bnd (for_loop 1 order
            (\<lambda>lag ac.
               let lag2 = 2 * lag;
                   L = (if 3 * lag < num_samples
                        then 1 + (num_samples - 3 * lag) div lag2 else 0);
                   Llag2 = L * lag2
               in bnd (for_loop 0 lag
                         (\<lambda>i ac.
                            for_loop 0 L
                              (\<lambda>m ac.
                                 let l = m * lag2
                                 in bnd (rd data (l + lag + i)) (\<lambda>x.
                                    bnd (rd data (l + i)) (\<lambda>y.
                                    bnd (rd data (l + lag2 + i)) (\<lambda>z.
                                    upd ac lag (\<lambda>v. v + x * (y + z))))))
                              ac)
                         ac) (\<lambda>ac'.
                  for_loop 0 (u32_sub (u32_sub num_samples Llag2) lag)
                    (\<lambda>i ac.
                       bnd (rd data (Llag2 + lag + i)) (\<lambda>x.
                       bnd (rd data (Llag2 + i)) (\<lambda>y.
                       upd ac lag (\<lambda>v. v + x * y))))
                    ac'))
            ac1) (\<lambda>ac2.
     Inr (LPC_ERROR_OK, ac2)))))"

subsection \<open>LPC_LevinsonDurbinRecursion\<close>

text \<open>
  The loop state is \<open>(a_vec, u_vec, v_vec, parcor_coef, ek)\<close>. In a chained
  assignment the rightmost array is written first.
\<close>

definition LPC_LevinsonDurbinRecursion ::
  "bool \<Rightarrow> LPCCalculator \<Rightarrow> nat \<Rightarrow> fault + (LPCError \<times> LPCCalculator)" where
  "LPC_LevinsonDurbinRecursion ndebug lpcc coef_order =
     (let auto_corr = lpcc_auto_corr lpcc
      in bnd (rd auto_corr 0) (\<lambda>r0.
         if dlt (dfabs r0) FLT_EPSILON
         then
           bnd (for_loop 0 (coef_order + 1)
                  (\<lambda>i (coef, parcor).
                     bnd (wr parcor i 0) (\<lambda>parcor'.
                     bnd (wr coef i 0) (\<lambda>coef'.
                     Inr (coef', parcor'))))
                  (lpcc_lpc_coef lpcc, lpcc_parcor_coef lpcc))
             (\<lambda>(coef, parcor).
                Inr (LPC_ERROR_OK, lpcc\<lparr>lpcc_lpc_coef := coef, lpcc_parcor_coef := parcor\<rparr>))
         else
           bnd (for_loop 0 (coef_order + 2)
                  (\<lambda>i (a, u, v).
                     bnd (wr v i 0) (\<lambda>v'.
                     bnd (wr u i 0) (\<lambda>u'.
                     bnd (wr a i 0) (\<lambda>a'.
                     Inr (a', u', v')))))
                  (lpcc_a_vec lpcc, lpcc_u_vec lpcc, lpcc_v_vec lpcc)) (\<lambda>(a0, u0, v0).
           bnd (wr a0 0 1) (\<lambda>a1.
           bnd (rd auto_corr 1) (\<lambda>r1.
           bnd (wr a1 1 (- r1 / r0)) (\<lambda>a2.
           bnd (wr (lpcc_parcor_coef lpcc) 0 0) (\<lambda>p0.
           bnd (wr p0 1 (r1 / r0)) (\<lambda>p1.
           bnd (rd a2 1) (\<lambda>a2_1.
           bnd (wr u0 0 1) (\<lambda>u1.
           bnd (wr u1 1 0) (\<lambda>u2.
           bnd (wr v0 0 0) (\<lambda>v1.
           bnd (wr v1 1 1) (\<lambda>v2.
           bnd (for_loop 1 coef_order
                  (\<lambda>k (a, u, v, parcor, ek).
                     bnd (for_loop 0 (k + 1)
                            (\<lambda>i gamma.
                               bnd (rd a i) (\<lambda>ai.
                               bnd (rd auto_corr (k + 1 - i)) (\<lambda>r.
                               Inr (gamma + ai * r))))
                            0) (\<lambda>gamma0.
                     let gamma = gamma0 / (- ek);
                         ek' = ek * (1 - gamma * gamma)
                     in bnd (c_assert ndebug (dge ek' 0)) (\<lambda>_.
                        bnd (for_loop 0 k
                               (\<lambda>i (u, v).
                                  bnd (rd a (i + 1)) (\<lambda>ai1.
                                  bnd (wr v (k - i) ai1) (\<lambda>v'.
                                  bnd (wr u (i + 1) ai1) (\<lambda>u'.
                                  Inr (u', v')))))
                               (u, v)) (\<lambda>(u3, v3).
                        bnd (wr u3 0 1) (\<lambda>u4.
                        bnd (wr u4 (k + 1) 0) (\<lambda>u5.
                        bnd (wr v3 0 0) (\<lambda>v4.
                        bnd (wr v4 (k + 1) 1) (\<lambda>v5.
                        bnd (for_loop 0 (k + 2)
                               (\<lambda>i a.
                                  bnd (rd u5 i) (\<lambda>ui.
                                  bnd (rd v5 i) (\<lambda>vi.
                                  wr a i (ui + gamma * vi))))
                               a) (\<lambda>a'.
                        bnd (wr parcor (k + 1) (- gamma)) (\<lambda>parcor'.
                        bnd (c_assert ndebug (dlt (dfabs gamma) 1)) (\<lambda>_.
                        Inr (a', u5, v5, parcor', ek'))))))))))))
                  (a2, u2, v2, p1, r0 + r1 * a2_1)) (\<lambda>(a, u, v, parcor, ek).
           bnd (memcpy_n (lpcc_lpc_coef lpcc) a (coef_order + 1)) (\<lambda>coef.
           Inr (LPC_ERROR_OK,
                lpcc\<lparr>lpcc_a_vec := a, lpcc_u_vec := u, lpcc_v_vec := v,
                      lpcc_lpc_coef := coef, lpcc_parcor_coef := parcor\<rparr>))))))))))))))))"

subsection \<open>LPC_CalculateCoef and LPCCalculator_CalculateLPCCoefficients\<close>

definition LPC_CalculateCoef ::
  "bool \<Rightarrow> LPCCalculator \<Rightarrow> dbl list \<Rightarrow> nat \<Rightarrow> nat \<Rightarrow> LPCWindowType
     \<Rightarrow> fault + (LPCError \<times> LPCCalculator)" where
  "LPC_CalculateCoef ndebug lpcc data num_samples coef_order window_type =
     bnd (LPC_ApplyWindow window_type data num_samples (lpcc_buffer lpcc)) (\<lambda>(err1, buf).
     let lpcc1 = lpcc\<lparr>lpcc_buffer := buf\<rparr>
     in if err1 \<noteq> LPC_ERROR_OK then Inr (LPC_ERROR_NG, lpcc1)
        else
          bnd (LPC_CalculateAutoCorrelation ndebug buf num_samples (lpcc_auto_corr lpcc1)
                 (coef_order + 1)) (\<lambda>(err2, ac).
          let lpcc2 = lpcc1\<lparr>lpcc_auto_corr := ac\<rparr>
          in if err2 \<noteq> LPC_ERROR_OK then Inr (LPC_ERROR_NG, lpcc2)
             else if num_samples < coef_order
             then
               bnd (for_loop 0 (coef_order + 1)
                      (\<lambda>ord (coef, parcor).
                         bnd (wr parcor ord 0) (\<lambda>parcor'.
                         bnd (wr coef ord 0) (\<lambda>coef'.
                         Inr (coef', parcor'))))
                      (lpcc_lpc_coef lpcc2, lpcc_parcor_coef lpcc2))
                 (\<lambda>(coef, parcor).
                    Inr (LPC_ERROR_OK,
                         lpcc2\<lparr>lpcc_lpc_coef := coef, lpcc_parcor_coef := parcor\<rparr>))
             else
               bnd (LPC_LevinsonDurbinRecursion ndebug lpcc2 coef_order) (\<lambda>(err3, lpcc3).
               if err3 \<noteq> LPC_ERROR_OK then Inr (LPC_ERROR_NG, lpcc3)
               else Inr (LPC_ERROR_OK, lpcc3))))"

text \<open>
  The entry points return the status, the calculator and the array behind \<open>coef\<close> as
  the call leaves them. \<open>LPCCalculator_CalculateLPCCoefficients\<close> reads
  \<open>lpcc->max_order\<close> without a check of \<open>lpcc\<close>.
\<close>

definition LPCCalculator_CalculateLPCCoefficients ::
  "bool \<Rightarrow> LPCCalculator option \<Rightarrow> dbl list option \<Rightarrow> nat \<Rightarrow> dbl list option \<Rightarrow> nat
     \<Rightarrow> LPCWindowType \<Rightarrow> fault + (LPCApiResult \<times> LPCCalculator option \<times> dbl list option)" where
  "LPCCalculator_CalculateLPCCoefficients ndebug lpcc data num_samples coef coef_order window_type =
     (case (data, coef) of
        (Some d, Some c) \<Rightarrow>
          (case lpcc of
             None \<Rightarrow> Inl NullDereference
           | Some l \<Rightarrow>
               if coef_order > lpcc_max_order l
               then Inr (LPC_APIRESULT_EXCEED_MAX_ORDER, lpcc, coef)
               else if num_samples > lpcc_max_num_buffer_samples l
               then Inr (LPC_APIRESULT_EXCEED_MAX_NUM_SAMPLES, lpcc, coef)
               else
                 bnd (LPC_CalculateCoef ndebug l d num_samples coef_order window_type)
                   (\<lambda>(err, l').
                      if err \<noteq> LPC_ERROR_OK
                      then Inr (LPC_APIRESULT_FAILED_TO_CALCULATION, Some l', coef)
                      else
                        bnd (memcpy_n c (drop 1 (lpcc_lpc_coef l')) coef_order) (\<lambda>c'.
                        Inr (LPC_APIRESULT_OK, Some l', Some c'))))
      | _ \<Rightarrow> Inr (LPC_APIRESULT_INVALID_ARGUMENT, lpcc, coef))"

subsection \<open>LPC_CalculateCoefBurg and LPCCalculator_CalculateLPCCoefficientsBurg\<close>

text \<open>
  The covariance form (the branch that \<open>#if 1\<close> selects). \<open>&cov[i][i]\<close> is row \<open>i\<close>
  from its element \<open>i\<close> on; \<open>num_samples - i\<close> is a \<open>uint32_t\<close> subtraction. The first
  loop leaves the function as soon as \<open>LPC_CalculateAutoCorrelation\<close> reports an
  error: its state carries the error, and an iteration that finds one does nothing.
\<close>

definition LPC_CalculateCoefBurg ::
  "bool \<Rightarrow> LPCCalculator \<Rightarrow> dbl list \<Rightarrow> nat \<Rightarrow> nat \<Rightarrow> fault + (LPCError \<times> LPCCalculator)" where
  "LPC_CalculateCoefBurg ndebug lpcc data num_samples coef_order =
     bnd (for_loop 0 (coef_order + 1)
            (\<lambda>i (err, cov).
               if err \<noteq> LPC_ERROR_OK then Inr (err, cov)
               else
                 bnd (rd cov i) (\<lambda>row.
                 bnd (LPC_CalculateAutoCorrelation ndebug data (u32_sub num_samples i)
                        (drop i row) (coef_order + 1 - i)) (\<lambda>(err', seg).
                 bnd (wr cov i (take i row @ seg)) (\<lambda>cov1.
                 if err' \<noteq> LPC_ERROR_OK then Inr (err', cov1)
                 else
                   bnd (for_loop (i + 1) (coef_order + 1)
                          (\<lambda>j cov. bnd (rd2 cov i j) (\<lambda>x. wr2 cov j i x))
                          cov1) (\<lambda>cov2.
                   Inr (LPC_ERROR_OK, cov2))))))
            (LPC_ERROR_OK, lpcc_r_mat lpcc)) (\<lambda>(err, cov).
     if err \<noteq> LPC_ERROR_OK then Inr (err, lpcc\<lparr>lpcc_r_mat := cov\<rparr>)
     else
       bnd (for_loop 0 (coef_order + 1) (\<lambda>i a. wr a i 0) (lpcc_a_vec lpcc)) (\<lambda>a0.
       bnd (wr a0 0 1) (\<lambda>a1.
       bnd (for_loop 0 coef_order
              (\<lambda>k a.
                 bnd (for_loop 0 (k + 1)
                        (\<lambda>i (FkpBk, sum).
                           bnd (rd a i) (\<lambda>ai.
                           bnd (rd2 cov i i) (\<lambda>cii.
                           bnd (rd2 cov (k + 1 - i) (k + 1 - i)) (\<lambda>ckk.
                           bnd (for_loop (i + 1) (k + 1)
                                  (\<lambda>j sum.
                                     bnd (rd a j) (\<lambda>aj.
                                     bnd (rd2 cov i j) (\<lambda>cij.
                                     bnd (rd2 cov (k + 1 - i) (k + 1 - j)) (\<lambda>ckij.
                                     Inr (sum + ai * aj * (cij + ckij))))))
                                  sum) (\<lambda>sum'.
                           Inr (FkpBk + ai * ai * (cii + ckk), sum'))))))
                        (0, 0)) (\<lambda>(FkpBk0, sum).
                 let FkpBk = FkpBk0 + Fin 2 * sum
                 in bnd (for_loop 0 (k + 1)
                           (\<lambda>i Ck.
                              for_loop 0 (k + 1)
                                (\<lambda>j Ck.
                                   bnd (rd a i) (\<lambda>ai.
                                   bnd (rd a j) (\<lambda>aj.
                                   bnd (rd2 cov i (k + 1 - j)) (\<lambda>c.
                                   Inr (Ck + ai * aj * c)))))
                                Ck)
                           0) (\<lambda>Ck.
                    let mu = - Fin 2 * Ck / FkpBk
                    in bnd (c_assert ndebug (dle (dfabs mu) 1)) (\<lambda>_.
                       for_loop 0 ((k + 1) div 2 + 1)
                         (\<lambda>i a.
                            bnd (rd a i) (\<lambda>tmp1.
                            bnd (rd a (k + 1 - i)) (\<lambda>tmp2.
                            bnd (wr a i (tmp1 + mu * tmp2)) (\<lambda>a'.
                            wr a' (k + 1 - i) (mu * tmp1 + tmp2)))))
                         a))))
              a1) (\<lambda>a.
       bnd (memcpy_n (lpcc_lpc_coef lpcc) (drop 1 a) coef_order) (\<lambda>coef.
       Inr (LPC_ERROR_OK,
            lpcc\<lparr>lpcc_r_mat := cov, lpcc_a_vec := a, lpcc_lpc_coef := coef\<rparr>))))))"

definition LPCCalculator_CalculateLPCCoefficientsBurg ::
  "bool \<Rightarrow> LPCCalculator option \<Rightarrow> dbl list option \<Rightarrow> nat \<Rightarrow> dbl list option \<Rightarrow> nat
     \<Rightarrow> fault + (LPCApiResult \<times> LPCCalculator option \<times> dbl list option)" where
  "LPCCalculator_CalculateLPCCoefficientsBurg ndebug lpcc data num_samples coef coef_order =
     (case (lpcc, data, coef) of
        (Some l, Some d, Some c) \<Rightarrow>
          if coef_order > lpcc_max_order l
          then Inr (LPC_APIRESULT_EXCEED_MAX_ORDER, lpcc, coef)
          else
            bnd (LPC_CalculateCoefBurg ndebug l d num_samples coef_order) (\<lambda>(err, l').
            if err \<noteq> LPC_ERROR_OK
            then Inr (LPC_APIRESULT_FAILED_TO_CALCULATION, Some l', coef)
            else
              bnd (memcpy_n c (lpcc_lpc_coef l') coef_order) (\<lambda>c'.
              Inr (LPC_APIRESULT_OK, Some l', Some c')))
      | _ \<Rightarrow> Inr (LPC_APIRESULT_INVALID_ARGUMENT, lpcc, coef))"


subsection \<open>LPC_CholeskyDecomposition\<close>

text \<open>
  \<open>pow(x, -0.5)\<close>: the reciprocal of the square root; a NaN for a negative \<open>x\<close>.
\<close>

fun dpow_minus_half :: "dbl \<Rightarrow> dbl" where
  "dpow_minus_half (Fin a) =
     (if 0 < a then Fin (1 / sqrt a) else if a = 0 then PInf else NaN)"
| "dpow_minus_half PInf = Fin 0"
| "dpow_minus_half NInf = Fin 0"
| "dpow_minus_half NaN = NaN"

text \<open>
  The function returns its status with \<open>Amat\<close>, \<open>xvec\<close> and \<open>inv_diag\<close> as it leaves
  them. The first loop returns \<open>LPC_ERROR_SINGULAR_MATRIX\<close> from inside: its state
  carries the status, and an iteration that finds an error does nothing. The counters
  are \<open>int32_t\<close>; the ones that count down are integers, the others natural numbers.
  The parameter \<open>dim\<close> is \<open>dim'\<close>.
\<close>

definition LPC_CholeskyDecomposition ::
  "dbl list list \<Rightarrow> nat \<Rightarrow> dbl list \<Rightarrow> dbl list \<Rightarrow> dbl list
     \<Rightarrow> fault + (LPCError \<times> dbl list list \<times> dbl list \<times> dbl list)" where
  "LPC_CholeskyDecomposition Amat dim' xvec bvec inv_diag =
     bnd (for_loop 0 dim'
            (\<lambda>i (err, A, inv).
               if err \<noteq> LPC_ERROR_OK then Inr (err, A, inv)
               else
                 bnd (rd2 A i i) (\<lambda>aii.
                 bnd (for_down (int i - 1)
                        (\<lambda>k sum. bnd (rd2 A i (nat k)) (\<lambda>aik. Inr (sum - aik * aik)))
                        aii) (\<lambda>sum.
                 if dle sum 0 then Inr (LPC_ERROR_SINGULAR_MATRIX, A, inv)
                 else
                   bnd (wr inv i (dpow_minus_half sum)) (\<lambda>inv'.
                   bnd (for_loop (i + 1) dim'
                          (\<lambda>j A.
                             bnd (rd2 A i j) (\<lambda>aij.
                             bnd (for_down (int i - 1)
                                    (\<lambda>k sum.
                                       bnd (rd2 A i (nat k)) (\<lambda>aik.
                                       bnd (rd2 A j (nat k)) (\<lambda>ajk.
                                       Inr (sum - aik * ajk))))
                                    aij) (\<lambda>sum.
                             bnd (rd inv' i) (\<lambda>d.
                             wr2 A j i (sum * d)))))
                          A) (\<lambda>A'.
                   Inr (LPC_ERROR_OK, A', inv'))))))
            (LPC_ERROR_OK, Amat, inv_diag)) (\<lambda>(err, A, inv).
     if err \<noteq> LPC_ERROR_OK then Inr (err, A, xvec, inv)
     else
       bnd (for_loop 0 dim'
              (\<lambda>i x.
                 bnd (rd bvec i) (\<lambda>bi.
                 bnd (for_down (int i - 1)
                        (\<lambda>j sum.
                           bnd (rd2 A i (nat j)) (\<lambda>aij.
                           bnd (rd x (nat j)) (\<lambda>xj.
                           Inr (sum - aij * xj))))
                        bi) (\<lambda>sum.
                 bnd (rd inv i) (\<lambda>d.
                 wr x i (sum * d)))))
              xvec) (\<lambda>x1.
       bnd (for_down (int dim' - 1)
              (\<lambda>i x.
                 bnd (rd x (nat i)) (\<lambda>xi.
                 bnd (for_loop (nat i + 1) dim'
                        (\<lambda>j sum.
                           bnd (rd2 A j (nat i)) (\<lambda>aji.
                           bnd (rd x j) (\<lambda>xj.
                           Inr (sum - aji * xj))))
                        xi) (\<lambda>sum.
                 bnd (rd inv (nat i)) (\<lambda>d.
                 wr x (nat i) (sum * d)))))
              x1) (\<lambda>x2.
       Inr (LPC_ERROR_OK, A, x2, inv))))"

subsection \<open>LPCAF_CalculateCoefMatrixAndVector\<close>

text \<open>
  The forward-residual form (the branch that \<open>#if 1\<close> selects). The function returns
  its status with \<open>r_mat\<close>, \<open>r_vec\<close> and the value stored behind \<open>pobj_value\<close>.
  \<open>num_samples - coef_order\<close> is a \<open>uint32_t\<close> subtraction; \<open>smpl - i - 1\<close> is read
  only where \<open>i < coef_order <= smpl\<close>.
\<close>

definition LPCAF_RESIDUAL_EPSILON :: dbl where
  "LPCAF_RESIDUAL_EPSILON = Fin (1 / 10 ^ 6)"

definition LPCAF_CalculateCoefMatrixAndVector ::
  "bool \<Rightarrow> dbl list \<Rightarrow> nat \<Rightarrow> dbl list \<Rightarrow> dbl list list \<Rightarrow> dbl list \<Rightarrow> nat
     \<Rightarrow> fault + (LPCError \<times> dbl list list \<times> dbl list \<times> dbl)" where
  "LPCAF_CalculateCoefMatrixAndVector ndebug data num_samples a_vec r_mat r_vec coef_order =
     bnd (c_assert ndebug (num_samples > coef_order)) (\<lambda>_.
     bnd (for_loop 0 coef_order
            (\<lambda>i (m, v).
               bnd (wr v i 0) (\<lambda>v'.
               bnd (for_loop 0 coef_order (\<lambda>j m. wr2 m i j 0) m) (\<lambda>m'.
               Inr (m', v'))))
            (r_mat, r_vec)) (\<lambda>(m0, v0).
     bnd (for_loop coef_order num_samples
            (\<lambda>smpl (m, v, obj_value).
               bnd (rd data smpl) (\<lambda>x.
               bnd (for_loop 0 coef_order
                      (\<lambda>i residual.
                         bnd (rd a_vec i) (\<lambda>ai.
                         bnd (rd data (smpl - i - 1)) (\<lambda>d.
                         Inr (residual + ai * d))))
                      x) (\<lambda>residual0.
               let residual1 = dfabs residual0;
                   obj_value' = obj_value + residual1;
                   residual = (if dlt residual1 LPCAF_RESIDUAL_EPSILON
                               then LPCAF_RESIDUAL_EPSILON else residual1);
                   inv_residual = 1 / residual
               in bnd (for_loop 0 coef_order
                         (\<lambda>i (m, v).
                            bnd (rd data (smpl - i - 1)) (\<lambda>di.
                            bnd (upd v i (\<lambda>w. w - x * di * inv_residual)) (\<lambda>v'.
                            bnd (for_loop i coef_order
                                   (\<lambda>j m.
                                      bnd (rd data (smpl - j - 1)) (\<lambda>dj.
                                      bnd (rd2 m i j) (\<lambda>w.
                                      wr2 m i j (w + di * dj * inv_residual))))
                                   m) (\<lambda>m'.
                            Inr (m', v')))))
                         (m, v)) (\<lambda>(m', v').
                  Inr (m', v', obj_value')))))
            (m0, v0, 0)) (\<lambda>(m1, v1, obj_value).
     bnd (for_loop 0 coef_order
            (\<lambda>i m.
               for_loop (i + 1) coef_order
                 (\<lambda>j m. bnd (rd2 m i j) (\<lambda>w. wr2 m j i w))
                 m)
            m1) (\<lambda>m2.
     Inr (LPC_ERROR_OK, m2, v1,
          obj_value / dbl_of_nat (u32_sub num_samples coef_order))))))"

subsection \<open>LPC_CalculateCoefAF and LPCCalculator_CalculateLPCCoefficientsAF\<close>

text \<open>
  \<open>FLT_MAX\<close> of \<open>float.h\<close> (IEEE single precision). The iteration leaves its loop by
  \<open>break\<close> and the function by \<open>return\<close>: the loop state carries which, and an
  iteration that finds the loop left does nothing. \<open>r_vec\<close> is \<open>lpcc->u_vec\<close>, and
  the reciprocal diagonal of the decomposition goes to \<open>lpcc->v_vec\<close>.
\<close>

definition FLT_MAX :: dbl where
  "FLT_MAX = Fin ((2 - 1 / 2 ^ 23) * 2 ^ 127)"

datatype loop_exit = Running | Break | Return LPCError

definition LPC_CalculateCoefAF ::
  "bool \<Rightarrow> LPCCalculator \<Rightarrow> dbl list \<Rightarrow> nat \<Rightarrow> nat \<Rightarrow> nat \<Rightarrow> dbl \<Rightarrow> LPCWindowType
     \<Rightarrow> fault + (LPCError \<times> LPCCalculator)" where
  "LPC_CalculateCoefAF ndebug lpcc data num_samples coef_order max_num_iteration obj_epsilon
       window_type =
     bnd (LPC_CalculateCoef ndebug lpcc data num_samples coef_order window_type) (\<lambda>(err, lpcc1).
     if err \<noteq> LPC_ERROR_OK then Inr (err, lpcc1)
     else
       bnd (memcpy_n (lpcc_a_vec lpcc1) (drop 1 (lpcc_lpc_coef lpcc1)) coef_order) (\<lambda>a0.
       let lpcc2 = lpcc1\<lparr>lpcc_a_vec := a0\<rparr>
       in bnd (rd (lpcc_auto_corr lpcc2) 0) (\<lambda>r0.
          if dlt (dfabs r0) FLT_EPSILON
          then
            bnd (for_loop 0 (coef_order + 1) (\<lambda>i c. wr c i 0) (lpcc_lpc_coef lpcc2)) (\<lambda>c.
            Inr (LPC_ERROR_OK, lpcc2\<lparr>lpcc_lpc_coef := c\<rparr>))
          else
            bnd (for_loop 0 max_num_iteration
                   (\<lambda>itr (ex, l, prev_obj_value).
                      if ex \<noteq> Running then Inr (ex, l, prev_obj_value)
                      else
                        bnd (LPCAF_CalculateCoefMatrixAndVector ndebug data num_samples
                               (lpcc_a_vec l) (lpcc_r_mat l) (lpcc_u_vec l) coef_order)
                          (\<lambda>(err1, m, v, obj_value).
                        let l1 = l\<lparr>lpcc_r_mat := m, lpcc_u_vec := v\<rparr>
                        in if err1 \<noteq> LPC_ERROR_OK then Inr (Return err1, l1, prev_obj_value)
                           else
                             bnd (LPC_CholeskyDecomposition m coef_order (lpcc_a_vec l1) v
                                    (lpcc_v_vec l1)) (\<lambda>(err2, m', x, inv).
                             let l2 = l1\<lparr>lpcc_r_mat := m', lpcc_a_vec := x, lpcc_v_vec := inv\<rparr>
                             in if err2 = LPC_ERROR_SINGULAR_MATRIX
                                then
                                  bnd (for_loop 0 coef_order (\<lambda>i c. wr c i 0)
                                         (lpcc_lpc_coef l2)) (\<lambda>c.
                                  Inr (Return LPC_ERROR_OK, l2\<lparr>lpcc_lpc_coef := c\<rparr>,
                                       prev_obj_value))
                                else
                                  bnd (c_assert ndebug (err2 = LPC_ERROR_OK)) (\<lambda>_.
                                  if dlt (dfabs (prev_obj_value - obj_value)) obj_epsilon
                                  then Inr (Break, l2, prev_obj_value)
                                  else Inr (Running, l2, obj_value)))))
                   (Running, lpcc2, FLT_MAX)) (\<lambda>(ex, l, prev_obj_value).
            case ex of
              Return e \<Rightarrow> Inr (e, l)
            | _ \<Rightarrow>
                bnd (memcpy_n (lpcc_lpc_coef l) (lpcc_a_vec l) coef_order) (\<lambda>c.
                Inr (LPC_ERROR_OK, l\<lparr>lpcc_lpc_coef := c\<rparr>))))))"

definition LPCCalculator_CalculateLPCCoefficientsAF ::
  "bool \<Rightarrow> LPCCalculator option \<Rightarrow> dbl list option \<Rightarrow> nat \<Rightarrow> dbl list option \<Rightarrow> nat \<Rightarrow> nat
     \<Rightarrow> LPCWindowType \<Rightarrow> fault + (LPCApiResult \<times> LPCCalculator option \<times> dbl list option)" where
  "LPCCalculator_CalculateLPCCoefficientsAF ndebug lpcc data num_samples coef coef_order
       max_num_iteration window_type =
     (case (lpcc, data, coef) of
        (Some l, Some d, Some c) \<Rightarrow>
          if coef_order > lpcc_max_order l
          then Inr (LPC_APIRESULT_EXCEED_MAX_ORDER, lpcc, coef)
          else
            bnd (LPC_CalculateCoefAF ndebug l d num_samples coef_order max_num_iteration
                   (Fin (1 / 10 ^ 8)) window_type) (\<lambda>(err, l').
            if err \<noteq> LPC_ERROR_OK
            then Inr (LPC_APIRESULT_FAILED_TO_CALCULATION, Some l', coef)
            else
              bnd (memcpy_n c (lpcc_lpc_coef l') coef_order) (\<lambda>c'.
              Inr (LPC_APIRESULT_OK, Some l', Some c')))
      | _ \<Rightarrow> Inr (LPC_APIRESULT_INVALID_ARGUMENT, lpcc, coef))"

text \<open>The status and the coefficient array of an entry point's result.\<close>

definition status_and_coef ::
  "fault + (LPCApiResult \<times> LPCCalculator option \<times> dbl list option)
     \<Rightarrow> fault + (LPCApiResult \<times> dbl list option)" where
  "status_and_coef r = (case r of Inl e \<Rightarrow> Inl e | Inr (st, l, c) \<Rightarrow> Inr (st, c))"


section \<open>lpc.c: the coefficient quantizer\<close>

definition LPC_Round :: "dbl \<Rightarrow> dbl" where
  "LPC_Round d = (if dge d 0 then dfloor (d + Fin (1 / 2)) else - dfloor (- d + Fin (1 / 2)))"

text \<open>
  The function returns its status with the array behind \<open>int_coef\<close> and the value
  behind \<open>coef_rshift\<close> as it leaves them. \<open>qmax\<close> is initialised, by
  \<open>1 << (nbits_precision - 1)\<close>, before the arguments are checked. The loop state
  of the quantization is \<open>(qerror, int_coef)\<close>.
\<close>

definition LPC_QuantizeCoefficients ::
  "bool \<Rightarrow> dbl list option \<Rightarrow> nat \<Rightarrow> nat \<Rightarrow> int32 list option \<Rightarrow> nat option
     \<Rightarrow> fault + (LPCApiResult \<times> int32 list option \<times> nat option)" where
  "LPC_QuantizeCoefficients ndebug double_coef coef_order nbits_precision int_coef coef_rshift =
     bnd (shl32 1 (u32_sub nbits_precision 1)) (\<lambda>qmax.
     case (double_coef, int_coef, coef_rshift) of
       (Some dc, Some ic, Some rs) \<Rightarrow>
         if nbits_precision = 0
         then Inr (LPC_APIRESULT_INVALID_ARGUMENT, int_coef, coef_rshift)
         else
           bnd (for_loop 0 coef_order
                  (\<lambda>ord mx.
                     bnd (rd dc ord) (\<lambda>c.
                     Inr (if dlt mx (dfabs c) then dfabs c else mx)))
                  0) (\<lambda>mx.
           if dle mx (dpow2 (- int32_of_u32 (u32_sub nbits_precision 1)))
           then
             bnd (memset_n ic 0 coef_order) (\<lambda>ic'.
             Inr (LPC_APIRESULT_OK, Some ic', Some nbits_precision))
           else
             bnd (frexp_exp mx) (\<lambda>ndigit.
             let nbits = u32_sub nbits_precision 1
             in bnd (c_assert ndebug (ndigit < int32_of_u32 nbits)) (\<lambda>_.
                let rshift = nat ((int32_of_u32 nbits - ndigit) mod 2 ^ 32)
                in bnd (for_down (int32_of_u32 coef_order - 1)
                          (\<lambda>ord (qerror, ic).
                             bnd (rd dc (nat ord)) (\<lambda>c.
                             let qerror1 = qerror + c * dpow2 (int rshift)
                             in bnd (int32_of_dbl (LPC_Round qerror1)) (\<lambda>qtmp0.
                                let qtmp = (if sint qmax \<le> sint qtmp0 then qmax - 1
                                            else if sint qtmp0 < sint (- qmax) then - qmax
                                            else qtmp0)
                                in bnd (wr ic (nat ord) qtmp) (\<lambda>ic'.
                                   Inr (qerror1 - dbl_of_int32 qtmp, ic')))))
                          (0, ic)) (\<lambda>(qerror, ic').
                   Inr (LPC_APIRESULT_OK, Some ic', Some rshift)))))
     | _ \<Rightarrow> Inr (LPC_APIRESULT_INVALID_ARGUMENT, int_coef, coef_rshift))"


section \<open>Auxiliary definitions for the proofs\<close>

text \<open>
  The inner loop of \<open>LPC_Predict\<close> and \<open>LPC_Synthesize\<close> (the same text in all four
  places of the source): the accumulation of \<open>ntaps\<close> taps into \<open>predict\<close>, and
  the value \<open>predict >> coef_rshift\<close> it leads to.
\<close>

definition lpc_taps :: "int32 list \<Rightarrow> int32 list \<Rightarrow> nat \<Rightarrow> nat \<Rightarrow> int32 \<Rightarrow> fault + int32" where
  "lpc_taps c d smpl ntaps p0 =
     for_loop 0 ntaps
       (\<lambda>ord predict.
          bnd (rd c ord) (\<lambda>cv.
          bnd (rd d (smpl - ord - 1)) (\<lambda>dv.
          Inr (predict + cv * dv))))
       p0"

definition lpc_pred :: "int32 list \<Rightarrow> int32 list \<Rightarrow> nat \<Rightarrow> nat \<Rightarrow> nat \<Rightarrow> int32" where
  "lpc_pred c d smpl ntaps shift =
     (case lpc_taps c d smpl ntaps (push_bit (shift - 1) 1) of
        Inr p \<Rightarrow> signed_drop_bit shift p
      | Inl e \<Rightarrow> 0)"


text \<open>
  For the quantizer: the largest magnitude among the coefficients, the integer that
  \<open>LPC_Round\<close> rounds a real number to, and the body of the quantization loop (the
  text of the source, once more).
\<close>

definition coef_max :: "real list \<Rightarrow> real" where
  "coef_max c = foldl (\<lambda>m x. max m \<bar>x\<bar>) 0 c"

definition lpc_round_int :: "real \<Rightarrow> int" where
  "lpc_round_int x = (if 0 \<le> x then \<lfloor>x + 1 / 2\<rfloor> else - \<lfloor>- x + 1 / 2\<rfloor>)"

definition quant_body ::
  "dbl list \<Rightarrow> int32 \<Rightarrow> nat \<Rightarrow> int \<Rightarrow> dbl \<times> int32 list \<Rightarrow> fault + (dbl \<times> int32 list)" where
  "quant_body dc qmax rshift =
     (\<lambda>ord (qerror, ic).
        bnd (rd dc (nat ord)) (\<lambda>c.
        let qerror1 = qerror + c * dpow2 (int rshift)
        in bnd (int32_of_dbl (LPC_Round qerror1)) (\<lambda>qtmp0.
           let qtmp = (if sint qmax \<le> sint qtmp0 then qmax - 1
                       else if sint qtmp0 < sint (- qmax) then - qmax
                       else qtmp0)
           in bnd (wr ic (nat ord) qtmp) (\<lambda>ic'.
              Inr (qerror1 - dbl_of_int32 qtmp, ic')))))"


text \<open>
  For the Levinson-Durbin recursion, on a block \<open>w\<close> of real samples: the biased sample
  autocorrelation \<open>acorr w k\<close> at lag \<open>k\<close>; the entry \<open>toep w i j\<close> of its symmetric
  Toeplitz matrix; the block delayed by \<open>i\<close> samples and extended by zeros, \<open>shifted w i\<close>;
  the left-hand side \<open>normal_eq w al j\<close> of the \<open>j\<close>-th normal equation for the predictor
  \<open>al\<close>; the forward prediction error \<open>fwd_err w al n\<close> of \<open>al\<close> at time \<open>n\<close>; the
  predictor \<open>ld_next al g\<close> of the next order that the reflection coefficient \<open>g\<close> leads
  to; and the property \<open>ld_inv w al e\<close> that the recursion maintains: \<open>al\<close> starts with
  1 and solves the normal equations with the error power \<open>e\<close>.
\<close>

definition acorr :: "real list \<Rightarrow> nat \<Rightarrow> real" where
  "acorr w k = (\<Sum>i<length w - k. w ! (i + k) * w ! i)"

definition toep :: "real list \<Rightarrow> nat \<Rightarrow> nat \<Rightarrow> real" where
  "toep w i j = acorr w (if i \<le> j then j - i else i - j)"

definition shifted :: "real list \<Rightarrow> nat \<Rightarrow> nat \<Rightarrow> real" where
  "shifted w i n = (if i \<le> n \<and> n - i < length w then w ! (n - i) else 0)"

definition normal_eq :: "real list \<Rightarrow> real list \<Rightarrow> nat \<Rightarrow> real" where
  "normal_eq w al j = (\<Sum>i<length al. al ! i * toep w j i)"

definition fwd_err :: "real list \<Rightarrow> real list \<Rightarrow> nat \<Rightarrow> real" where
  "fwd_err w al n = (\<Sum>i<length al. al ! i * shifted w i n)"

definition ld_next :: "real list \<Rightarrow> real \<Rightarrow> real list" where
  "ld_next al g = map (\<lambda>i. (al @ [0]) ! i + g * (al @ [0]) ! (length al - i)) [0..<length al + 1]"

definition ld_inv :: "real list \<Rightarrow> real list \<Rightarrow> real \<Rightarrow> bool" where
  "ld_inv w al e \<longleftrightarrow>
     al \<noteq> [] \<and> al ! 0 = 1 \<and> normal_eq w al 0 = e
     \<and> (\<forall>j. 1 \<le> j \<and> j < length al \<longrightarrow> normal_eq w al j = 0)"

text \<open>
  The body of the recursion loop of \<open>LPC_LevinsonDurbinRecursion\<close> and the body of the
  loop over the lags of \<open>LPC_CalculateAutoCorrelation\<close> (the text of the source, once
  more).
\<close>

definition ld_body ::
  "bool \<Rightarrow> dbl list \<Rightarrow> nat \<Rightarrow> dbl list \<times> dbl list \<times> dbl list \<times> dbl list \<times> dbl
     \<Rightarrow> fault + (dbl list \<times> dbl list \<times> dbl list \<times> dbl list \<times> dbl)" where
  "ld_body ndebug auto_corr =
     (\<lambda>k (a, u, v, parcor, ek).
                     bnd (for_loop 0 (k + 1)
                            (\<lambda>i gamma.
                               bnd (rd a i) (\<lambda>ai.
                               bnd (rd auto_corr (k + 1 - i)) (\<lambda>r.
                               Inr (gamma + ai * r))))
                            0) (\<lambda>gamma0.
                     let gamma = gamma0 / (- ek);
                         ek' = ek * (1 - gamma * gamma)
                     in bnd (c_assert ndebug (dge ek' 0)) (\<lambda>_.
                        bnd (for_loop 0 k
                               (\<lambda>i (u, v).
                                  bnd (rd a (i + 1)) (\<lambda>ai1.
                                  bnd (wr v (k - i) ai1) (\<lambda>v'.
                                  bnd (wr u (i + 1) ai1) (\<lambda>u'.
                                  Inr (u', v')))))
                               (u, v)) (\<lambda>(u3, v3).
                        bnd (wr u3 0 1) (\<lambda>u4.
                        bnd (wr u4 (k + 1) 0) (\<lambda>u5.
                        bnd (wr v3 0 0) (\<lambda>v4.
                        bnd (wr v4 (k + 1) 1) (\<lambda>v5.
                        bnd (for_loop 0 (k + 2)
                               (\<lambda>i a.
                                  bnd (rd u5 i) (\<lambda>ui.
                                  bnd (rd v5 i) (\<lambda>vi.
                                  wr a i (ui + gamma * vi))))
                               a) (\<lambda>a'.
                        bnd (wr parcor (k + 1) (- gamma)) (\<lambda>parcor'.
                        bnd (c_assert ndebug (dlt (dfabs gamma) 1)) (\<lambda>_.
                        Inr (a', u5, v5, parcor', ek'))))))))))))"

definition autocorr_lag_body :: "dbl list \<Rightarrow> nat \<Rightarrow> nat \<Rightarrow> dbl list \<Rightarrow> fault + dbl list" where
  "autocorr_lag_body data num_samples =
            (\<lambda>lag ac.
               let lag2 = 2 * lag;
                   L = (if 3 * lag < num_samples
                        then 1 + (num_samples - 3 * lag) div lag2 else 0);
                   Llag2 = L * lag2
               in bnd (for_loop 0 lag
                         (\<lambda>i ac.
                            for_loop 0 L
                              (\<lambda>m ac.
                                 let l = m * lag2
                                 in bnd (rd data (l + lag + i)) (\<lambda>x.
                                    bnd (rd data (l + i)) (\<lambda>y.
                                    bnd (rd data (l + lag2 + i)) (\<lambda>z.
                                    upd ac lag (\<lambda>v. v + x * (y + z))))))
                              ac)
                         ac) (\<lambda>ac'.
                  for_loop 0 (u32_sub (u32_sub num_samples Llag2) lag)
                    (\<lambda>i ac.
                       bnd (rd data (Llag2 + lag + i)) (\<lambda>x.
                       bnd (rd data (Llag2 + i)) (\<lambda>y.
                       upd ac lag (\<lambda>v. v + x * y))))
                    ac'))"

section \<open>Two calculators\<close>

text \<open>
  The calculators that \<open>LPCCalculator_Create\<close> returns on a zeroed work area for
  \<open>max_order = 1\<close>, \<open>max_num_samples = 2\<close> and for \<open>max_order = 3\<close>,
  \<open>max_num_samples = 2\<close>.
\<close>

definition calc_1_2 :: LPCCalculator where
  "calc_1_2 = \<lparr>
     lpcc_max_order = 1, lpcc_max_num_buffer_samples = 2,
     lpcc_a_vec = [Fin 0, Fin 0, Fin 0],
     lpcc_u_vec = [Fin 0, Fin 0, Fin 0],
     lpcc_v_vec = [Fin 0, Fin 0, Fin 0],
     lpcc_r_mat = [[Fin 0, Fin 0], [Fin 0, Fin 0]],
     lpcc_auto_corr = [Fin 0, Fin 0],
     lpcc_lpc_coef = [Fin 0, Fin 0],
     lpcc_parcor_coef = [Fin 0, Fin 0],
     lpcc_buffer = [Fin 0, Fin 0] \<rparr>"

definition calc_3_2 :: LPCCalculator where
  "calc_3_2 = \<lparr>
     lpcc_max_order = 3, lpcc_max_num_buffer_samples = 2,
     lpcc_a_vec = [Fin 0, Fin 0, Fin 0, Fin 0, Fin 0],
     lpcc_u_vec = [Fin 0, Fin 0, Fin 0, Fin 0, Fin 0],
     lpcc_v_vec = [Fin 0, Fin 0, Fin 0, Fin 0, Fin 0],
     lpcc_r_mat = [[Fin 0, Fin 0, Fin 0, Fin 0], [Fin 0, Fin 0, Fin 0, Fin 0],
                   [Fin 0, Fin 0, Fin 0, Fin 0], [Fin 0, Fin 0, Fin 0, Fin 0]],
     lpcc_auto_corr = [Fin 0, Fin 0, Fin 0, Fin 0],
     lpcc_lpc_coef = [Fin 0, Fin 0, Fin 0, Fin 0],
     lpcc_parcor_coef = [Fin 0, Fin 0, Fin 0, Fin 0],
     lpcc_buffer = [Fin 0, Fin 0] \<rparr>"


section \<open>Generic facts about loops\<close>

lemma bnd_Inr [simp]: "bnd (Inr x) f = f x"
  by (simp add: bnd_def)

lemma bnd_Inl [simp]: "bnd (Inl e) f = Inl e"
  by (simp add: bnd_def)

lemma bnd_eq_Inr_iff: "bnd m f = Inr y \<longleftrightarrow> (\<exists>x. m = Inr x \<and> f x = Inr y)"
  by (cases m) simp_all

lemma for_loop_step: "i < n \<Longrightarrow> for_loop i n body s = bnd (body i s) (for_loop (Suc i) n body)"
  by (subst for_loop.simps) (simp add: bnd_def)

lemma for_loop_done: "\<not> i < n \<Longrightarrow> for_loop i n body s = Inr s"
  by (subst for_loop.simps) simp

lemma for_loop_inv:
  assumes "I i s" and "i \<le> n"
    and "\<And>j t. i \<le> j \<Longrightarrow> j < n \<Longrightarrow> I j t \<Longrightarrow> \<exists>t'. body j t = Inr t' \<and> I (Suc j) t'"
  shows "\<exists>t. for_loop i n body s = Inr t \<and> I n t"
  using assms
proof (induction "n - i" arbitrary: i s)
  case 0
  then have "i = n" by simp
  with 0 show ?case by (simp add: for_loop_done)
next
  case (Suc d)
  then have lt: "i < n" by simp
  from Suc.prems(3) [OF le_refl lt Suc.prems(1)]
  obtain t' where t': "body i s = Inr t'" "I (Suc i) t'" by blast
  have "\<exists>t. for_loop (Suc i) n body t' = Inr t \<and> I n t"
  proof (rule Suc.hyps(1))
    show "d = n - Suc i" using Suc.hyps(2) by simp
    show "I (Suc i) t'" by (rule t')
    show "Suc i \<le> n" using lt by simp
    show "\<exists>t'. body j t = Inr t' \<and> I (Suc j) t'" if "Suc i \<le> j" "j < n" "I j t" for j t
      using that Suc.prems(3) [of j t] by simp
  qed
  then show ?case using lt t' by (simp add: for_loop_step)
qed

lemma for_loop_cong_range:
  assumes "\<And>j t. i \<le> j \<Longrightarrow> j < n \<Longrightarrow> body j t = body' j t"
  shows "for_loop i n body s = for_loop i n body' s"
  using assms
proof (induction "n - i" arbitrary: i s)
  case 0
  then show ?case by (simp add: for_loop_done)
next
  case (Suc d)
  then have lt: "i < n" by simp
  have eq: "body i s = body' i s" using Suc.prems lt by simp
  have "for_loop (Suc i) n body t = for_loop (Suc i) n body' t" for t
    by (rule Suc.hyps(1)) (use Suc.hyps(2) Suc.prems in auto)
  then have "for_loop (Suc i) n body = for_loop (Suc i) n body'"
    by (rule ext)
  then show ?case using lt eq by (simp add: for_loop_step)
qed


text \<open>A loop whose iteration j rewrites position j only, from a state that agrees with the
  final one below j and with the initial one from j on.\<close>

lemma for_loop_fill:
  assumes step: "\<And>j. lo \<le> j \<Longrightarrow> j < hi \<Longrightarrow> body j (st j) = Inr (st (Suc j))"
  shows "for_loop lo hi body (st lo) = Inr (st (max lo hi))"
proof (cases "lo \<le> hi")
  case True
  have "\<exists>t. for_loop lo hi body (st lo) = Inr t \<and> t = st hi"
    by (rule for_loop_inv [where I = "\<lambda>j t. t = st j"]) (use True step in auto)
  then show ?thesis using True by (simp add: max_def)
next
  case False
  then show ?thesis by (simp add: for_loop_done max_def)
qed

text \<open>A loop whose iteration j rewrites position j of two arrays from their values there.\<close>

lemma for_loop_pointwise2:
  assumes body: "\<And>j b0 b1. j < n \<Longrightarrow> j < length b0 \<Longrightarrow> j < length b1 \<Longrightarrow>
             body j (b0, b1) = Inr (b0[j := f (b0 ! j) (b1 ! j)], b1[j := g (b0 ! j) (b1 ! j)])"
    and len: "n \<le> length L" "n \<le> length R"
  shows "for_loop 0 n body (L, R) =
           Inr (map (\<lambda>k. if k < n then f (L ! k) (R ! k) else L ! k) [0..<length L],
                map (\<lambda>k. if k < n then g (L ! k) (R ! k) else R ! k) [0..<length R])"
proof -
  define I where "I j t \<longleftrightarrow>
      t = (map (\<lambda>k. if k < j then f (L ! k) (R ! k) else L ! k) [0..<length L],
           map (\<lambda>k. if k < j then g (L ! k) (R ! k) else R ! k) [0..<length R])" for j t
  have "\<exists>t. for_loop 0 n body (L, R) = Inr t \<and> I n t"
  proof (rule for_loop_inv)
    show "I 0 (L, R)" by (simp add: I_def map_nth)
    show "0 \<le> n" by simp
    show "\<exists>t'. body j t = Inr t' \<and> I (Suc j) t'" if "0 \<le> j" "j < n" "I j t" for j t
    proof -
      obtain b0 b1 where t: "t = (b0, b1)" by (cases t)
      have b0: "b0 = map (\<lambda>k. if k < j then f (L ! k) (R ! k) else L ! k) [0..<length L]"
        and b1: "b1 = map (\<lambda>k. if k < j then g (L ! k) (R ! k) else R ! k) [0..<length R]"
        using that(3) by (simp_all add: I_def t)
      have l0: "length b0 = length L" and l1: "length b1 = length R"
        by (simp_all add: b0 b1)
      have jl: "j < length L" "j < length R" using that(2) len by simp_all
      have v0: "b0 ! j = L ! j" and v1: "b1 ! j = R ! j"
        using jl by (simp_all add: b0 b1)
      have "body j (b0, b1) = Inr (b0[j := f (L ! j) (R ! j)], b1[j := g (L ! j) (R ! j)])"
        using body [of j b0 b1] that(2) jl by (simp add: l0 l1 v0 v1)
      moreover have "b0[j := f (L ! j) (R ! j)] =
          map (\<lambda>k. if k < Suc j then f (L ! k) (R ! k) else L ! k) [0..<length L]"
        by (rule nth_equalityI) (auto simp: b0 nth_list_update less_Suc_eq)
      moreover have "b1[j := g (L ! j) (R ! j)] =
          map (\<lambda>k. if k < Suc j then g (L ! k) (R ! k) else R ! k) [0..<length R]"
        by (rule nth_equalityI) (auto simp: b1 nth_list_update less_Suc_eq)
      ultimately show ?thesis by (simp add: t I_def)
    qed
  qed
  then show ?thesis by (auto simp: I_def)
qed

section \<open>Reads, writes and shifts inside their bounds\<close>

lemma rd_Inr [simp]: "i < length xs \<Longrightarrow> rd xs i = Inr (xs ! i)"
  by (simp add: rd_def)

lemma upd_Inr [simp]: "i < length xs \<Longrightarrow> upd xs i f = Inr (xs[i := f (xs ! i)])"
  by (simp add: upd_def)

lemma sar32_Inr [simp]: "n < 32 \<Longrightarrow> sar32 x n = Inr (signed_drop_bit n x)"
  by (simp add: sar32_def)

lemma shl32_Inr [simp]: "n < 32 \<Longrightarrow> shl32 x n = Inr (push_bit n x)"
  by (simp add: shl32_def)

lemma u32_sub_nowrap: "b \<le> a \<Longrightarrow> a < 2 ^ 32 \<Longrightarrow> u32_sub a b = a - b"
proof -
  assume a: "b \<le> a" "a < 2 ^ 32"
  have gen: "(a + M - b mod M) mod M = a - b" if "a < M" for M :: nat
  proof -
    have "b mod M = b" using a(1) that by simp
    moreover have "a + M - b = (a - b) + M" using a(1) by simp
    ultimately have "(a + M - b mod M) mod M = ((a - b) + M) mod M" by simp
    also have "\<dots> = a - b" using that by simp
    finally show ?thesis .
  qed
  show ?thesis unfolding u32_sub_def by (rule gen) (rule a(2))
qed


lemma for_down_step: "0 \<le> i \<Longrightarrow> for_down i body s = bnd (body i s) (for_down (i - 1) body)"
  by (subst for_down.simps) (simp add: bnd_def)

lemma for_down_done: "i < 0 \<Longrightarrow> for_down i body s = Inr s"
  by (subst for_down.simps) simp

lemma for_down_inv:
  assumes "I i s" and "- 1 \<le> i"
    and "\<And>j t. 0 \<le> j \<Longrightarrow> j \<le> i \<Longrightarrow> I j t \<Longrightarrow> \<exists>t'. body j t = Inr t' \<and> I (j - 1) t'"
  shows "\<exists>t. for_down i body s = Inr t \<and> I (- 1) t"
  using assms
proof (induction "nat (i + 1)" arbitrary: i s)
  case 0
  then have "i = - 1" by simp
  with 0 show ?case by (simp add: for_down_done)
next
  case (Suc d)
  then have ge: "0 \<le> i" by simp
  from Suc.prems(3) [OF ge order_refl Suc.prems(1)]
  obtain t' where t': "body i s = Inr t'" "I (i - 1) t'" by blast
  have "\<exists>t. for_down (i - 1) body t' = Inr t \<and> I (- 1) t"
  proof (rule Suc.hyps(1))
    show "d = nat (i - 1 + 1)" using Suc.hyps(2) by simp
    show "I (i - 1) t'" by (rule t')
    show "- 1 \<le> i - 1" using ge by simp
    show "\<exists>t'. body j t = Inr t' \<and> I (j - 1) t'" if "0 \<le> j" "j \<le> i - 1" "I j t" for j t
      using that Suc.prems(3) [of j t] by simp
  qed
  then show ?case using ge t' by (simp add: for_down_step)
qed


text \<open>Unfolding rules for the evaluation of the model at concrete inputs.\<close>

lemmas dbl_ev = zero_dbl_def one_dbl_def minus_dbl_def dge_def dbl_of_nat_def

lemmas mem_ev = rd_def wr_def upd_def rd2_def wr2_def memcpy_n_def memset_n_def c_assert_def


section \<open>LINNEUtility_RoundUp2PoweredSoft at the four inputs\<close>

text \<open>
  C8, as the code has it: the idiom decrements first, so the input 0 wraps to
  \<open>0xFFFFFFFF\<close>, stays there through the five folds, and the final increment wraps
  it back to 0. The inputs 1, 5 and \<open>2^31\<close> give 1, 8 and \<open>2^31\<close>.
\<close>

theorem roundup2powered_values:
  "LINNEUtility_RoundUp2PoweredSoft 0 = 0 \<and>
   LINNEUtility_RoundUp2PoweredSoft 1 = 1 \<and>
   LINNEUtility_RoundUp2PoweredSoft 5 = 8 \<and>
   LINNEUtility_RoundUp2PoweredSoft (2 ^ 31) = 2 ^ 31"
  by (simp add: LINNEUtility_RoundUp2PoweredSoft_def Let_def)

text \<open>C8 as the spec states it fails at the input 0: the result there is not 1.\<close>

theorem roundup2powered_zero_not_one:
  "LINNEUtility_RoundUp2PoweredSoft 0 \<noteq> 1"
  by (simp add: LINNEUtility_RoundUp2PoweredSoft_def Let_def)

section \<open>The M/S transform and its inverse\<close>

lemma MSConversion_result:
  assumes "num_samples \<le> length L" "num_samples \<le> length R"
  shows "LINNEUtility_MSConversion (L, R) num_samples =
     Inr (map (\<lambda>k. if k < num_samples then L ! k + signed_drop_bit 1 (R ! k - L ! k) else L ! k)
            [0..<length L],
          map (\<lambda>k. if k < num_samples then R ! k - L ! k else R ! k) [0..<length R])"
  unfolding LINNEUtility_MSConversion_def
  by (rule for_loop_pointwise2) (use assms in simp_all)

lemma LRConversion_result:
  assumes "num_samples \<le> length M" "num_samples \<le> length S"
  shows "LINNEUtility_LRConversion (M, S) num_samples =
     Inr (map (\<lambda>k. if k < num_samples then M ! k - signed_drop_bit 1 (S ! k) else M ! k)
            [0..<length M],
          map (\<lambda>k. if k < num_samples then S ! k + (M ! k - signed_drop_bit 1 (S ! k)) else S ! k)
            [0..<length S])"
  unfolding LINNEUtility_LRConversion_def
  by (rule for_loop_pointwise2) (use assms in simp_all)

text \<open>
  C4: for two channel arrays \<open>L\<close> and \<open>R\<close> of the same length \<open>N\<close>,
  \<open>LINNEUtility_MSConversion\<close> followed by \<open>LINNEUtility_LRConversion\<close> on its
  result returns, and leaves exactly \<open>(L, R)\<close> in the buffers, whatever the sample
  values (the arithmetic wraps around at 32 bits).
\<close>

theorem ms_lr_roundtrip:
  assumes "length L = N" and "length R = N"
  shows "bnd (LINNEUtility_MSConversion (L, R) N) (\<lambda>ms. LINNEUtility_LRConversion ms N) = Inr (L, R)"
proof -
  let ?M = "map (\<lambda>k. if k < N then L ! k + signed_drop_bit 1 (R ! k - L ! k) else L ! k) [0..<length L]"
  let ?S = "map (\<lambda>k. if k < N then R ! k - L ! k else R ! k) [0..<length R]"
  have ms: "LINNEUtility_MSConversion (L, R) N = Inr (?M, ?S)"
    by (rule MSConversion_result) (use assms in simp_all)
  have lr: "LINNEUtility_LRConversion (?M, ?S) N =
     Inr (map (\<lambda>k. if k < N then ?M ! k - signed_drop_bit 1 (?S ! k) else ?M ! k) [0..<length ?M],
          map (\<lambda>k. if k < N then ?S ! k + (?M ! k - signed_drop_bit 1 (?S ! k)) else ?S ! k)
            [0..<length ?S])"
    by (rule LRConversion_result) (use assms in simp_all)
  have "map (\<lambda>k. if k < N then ?M ! k - signed_drop_bit 1 (?S ! k) else ?M ! k) [0..<length ?M] = L"
    by (rule nth_equalityI) (use assms in auto)
  moreover have "map (\<lambda>k. if k < N then ?S ! k + (?M ! k - signed_drop_bit 1 (?S ! k)) else ?S ! k)
            [0..<length ?S] = R"
    by (rule nth_equalityI) (use assms in auto)
  ultimately show ?thesis using ms lr by simp
qed

text \<open>
  The theorem at the spec's first scenario, \<open>L = [10, -3, 7]\<close> and \<open>R = [4, -3, 9]\<close>;
  the forward transform gives \<open>M = [7, -3, 8]\<close> and \<open>S = [-6, 0, 2]\<close>.
\<close>

theorem ms_lr_roundtrip_witness:
  "bnd (LINNEUtility_MSConversion ([10, - 3, 7], [4, - 3, 9]) 3)
       (\<lambda>ms. LINNEUtility_LRConversion ms 3) = Inr ([10, - 3, 7], [4, - 3, 9])
   \<and> LINNEUtility_MSConversion ([10, - 3, 7], [4, - 3, 9]) 3 = Inr ([7, - 3, 8], [- 6, 0, 2])"
  using ms_lr_roundtrip [of "[10, - 3, 7]" 3 "[4, - 3, 9]"]
  by (simp add: LINNEUtility_MSConversion_def for_loop_step for_loop_done)


section \<open>Preemphasis and deemphasis\<close>

lemma Preemphasis_result:
  assumes len: "num_samples \<le> length x" and sh: "coef_shift < 32"
  shows "LINNEPreemphasisFilter_Preemphasis coef_shift preem x num_samples =
     Inr (preem\<lparr>preem_prev := (if num_samples = 0 then preem_prev preem else x ! (num_samples - 1))\<rparr>,
          map (\<lambda>k. if k < num_samples
                    then x ! k - signed_drop_bit coef_shift
                           ((if k = 0 then preem_prev preem else x ! (k - 1)) * preem_coef preem)
                    else x ! k) [0..<length x])"
proof -
  define out where "out j = map (\<lambda>k. if k < j
                    then x ! k - signed_drop_bit coef_shift
                           ((if k = 0 then preem_prev preem else x ! (k - 1)) * preem_coef preem)
                    else x ! k) [0..<length x]" for j
  define I where "I j t \<longleftrightarrow> t = (if j = 0 then preem_prev preem else x ! (j - 1), out j)"
    for j and t :: "int32 \<times> int32 list"
  let ?body = "\<lambda>smpl (prev, buf).
               bnd (rd buf smpl) (\<lambda>tmp.
               bnd (sar32 (prev * preem_coef preem) coef_shift) (\<lambda>p.
               bnd (upd buf smpl (\<lambda>v. v - p)) (\<lambda>buf'.
               Inr (tmp, buf'))))"
  have "\<exists>t. for_loop 0 num_samples ?body (preem_prev preem, x) = Inr t \<and> I num_samples t"
  proof (rule for_loop_inv)
    show "I 0 (preem_prev preem, x)" by (simp add: I_def out_def map_nth)
    show "0 \<le> num_samples" by simp
    show "\<exists>t'. ?body j t = Inr t' \<and> I (Suc j) t'" if "0 \<le> j" "j < num_samples" "I j t" for j t
    proof -
      have t: "t = (if j = 0 then preem_prev preem else x ! (j - 1), out j)"
        using that(3) by (simp add: I_def)
      have jl: "j < length x" using that(2) len by simp
      have lo: "length (out j) = length x" by (simp add: out_def)
      have vj: "out j ! j = x ! j" using jl by (simp add: out_def)
      have "(out j)[j := x ! j - signed_drop_bit coef_shift
              ((if j = 0 then preem_prev preem else x ! (j - 1)) * preem_coef preem)] = out (Suc j)"
        by (rule nth_equalityI) (auto simp: out_def nth_list_update less_Suc_eq)
      then show ?thesis using jl sh by (simp add: t lo vj I_def)
    qed
  qed
  then show ?thesis
    by (auto simp: I_def out_def LINNEPreemphasisFilter_Preemphasis_def)
qed

lemma Deemphasis_inverts:
  assumes len: "length x = num_samples" and pos: "0 < num_samples" and u32: "num_samples < 2 ^ 32"
    and sh: "coef_shift < 32"
    and y: "y = map (\<lambda>k. x ! k - signed_drop_bit coef_shift
                           ((if k = 0 then preem_prev preem else x ! (k - 1)) * preem_coef preem))
                [0..<length x]"
  shows "LINNEPreemphasisFilter_Deemphasis coef_shift preem y num_samples =
     Inr (preem\<lparr>preem_prev := x ! (num_samples - 1)\<rparr>, x)"
proof -
  define mix where "mix j = map (\<lambda>k. if k < j then x ! k else y ! k) [0..<length x]" for j
  have ly: "length y = length x" by (simp add: y)
  let ?body = "\<lambda>smpl buf.
               bnd (rd buf (smpl - 1)) (\<lambda>b.
               bnd (sar32 (b * preem_coef preem) coef_shift) (\<lambda>p.
               upd buf smpl (\<lambda>v. v + p)))"
  have first: "y[0 := y ! 0 + signed_drop_bit coef_shift (preem_prev preem * preem_coef preem)] = mix 1"
    by (rule nth_equalityI) (use pos len in \<open>auto simp: mix_def y nth_list_update\<close>)
  have "\<exists>t. for_loop 1 num_samples ?body (mix 1) = Inr t \<and> t = mix num_samples"
  proof (rule for_loop_inv [where I = "\<lambda>j t. t = mix j"])
    show "mix 1 = mix 1" by simp
    show "1 \<le> num_samples" using pos by simp
    show "\<exists>t'. ?body j t = Inr t' \<and> t' = mix (Suc j)" if "1 \<le> j" "j < num_samples" "t = mix j" for j t
    proof -
      have jl: "j < length x" "j - 1 < length x" using that(2) len by simp_all
      have lm: "length (mix j) = length x" by (simp add: mix_def)
      have v1: "mix j ! (j - Suc 0) = x ! (j - Suc 0)" using jl that(1) by (simp add: mix_def)
      have v2: "mix j ! j = y ! j" using jl by (simp add: mix_def)
      have "(mix j)[j := y ! j + signed_drop_bit coef_shift (x ! (j - 1) * preem_coef preem)] = mix (Suc j)"
        by (rule nth_equalityI) (use that(1) jl in \<open>auto simp: mix_def y nth_list_update less_Suc_eq\<close>)
      then show ?thesis using jl sh by (simp add: that(3) lm v1 v2)
    qed
  qed
  then have loop: "for_loop 1 num_samples ?body (mix 1) = Inr (mix num_samples)" by simp
  have fin: "mix num_samples = x"
    by (rule nth_equalityI) (use len in \<open>auto simp: mix_def\<close>)
  show ?thesis
    using pos len sh u32 loop first
    by (simp add: LINNEPreemphasisFilter_Deemphasis_def ly fin u32_sub_nowrap)
qed

text \<open>
  C6: for a block of positive length and any filter state \<open>(prev, coef)\<close>,
  \<open>LINNEPreemphasisFilter_Preemphasis\<close> returns a filtered block and a state with the
  same \<open>coef\<close>; \<open>LINNEPreemphasisFilter_Deemphasis\<close> run on the filtered block with
  that \<open>coef\<close> and with \<open>prev\<close> set back to the value preemphasis started from
  returns the original block, bit for bit. The block length is a \<open>uint32_t\<close> and the
  shift constant of the header is below the width of \<open>int32_t\<close>.
\<close>

theorem preemphasis_deemphasis_identity:
  assumes "length buffer = num_samples" and "0 < num_samples" and "num_samples < 2 ^ 32"
    and "coef_shift < 32"
  shows "\<exists>preem' filtered.
      LINNEPreemphasisFilter_Preemphasis coef_shift preem buffer num_samples = Inr (preem', filtered) \<and>
      preem_coef preem' = preem_coef preem \<and>
      LINNEPreemphasisFilter_Deemphasis coef_shift (preem'\<lparr>preem_prev := preem_prev preem\<rparr>)
          filtered num_samples = Inr (preem', buffer)"
proof -
  let ?y = "map (\<lambda>k. buffer ! k - signed_drop_bit coef_shift
                 ((if k = 0 then preem_prev preem else buffer ! (k - 1)) * preem_coef preem))
              [0..<length buffer]"
  let ?p = "preem\<lparr>preem_prev := buffer ! (num_samples - 1)\<rparr>"
  have "LINNEPreemphasisFilter_Preemphasis coef_shift preem buffer num_samples =
     Inr (preem\<lparr>preem_prev := (if num_samples = 0 then preem_prev preem else buffer ! (num_samples - 1))\<rparr>,
          map (\<lambda>k. if k < num_samples
                    then buffer ! k - signed_drop_bit coef_shift
                           ((if k = 0 then preem_prev preem else buffer ! (k - 1)) * preem_coef preem)
                    else buffer ! k) [0..<length buffer])"
    by (rule Preemphasis_result) (use assms in simp_all)
  moreover have "map (\<lambda>k. if k < num_samples
                    then buffer ! k - signed_drop_bit coef_shift
                           ((if k = 0 then preem_prev preem else buffer ! (k - 1)) * preem_coef preem)
                    else buffer ! k) [0..<length buffer] = ?y"
    using assms(1) by simp
  ultimately have pre: "LINNEPreemphasisFilter_Preemphasis coef_shift preem buffer num_samples = Inr (?p, ?y)"
    using assms(2) by simp
  have "LINNEPreemphasisFilter_Deemphasis coef_shift preem ?y num_samples = Inr (?p, buffer)"
    by (rule Deemphasis_inverts) (use assms in simp_all)
  moreover have "?p\<lparr>preem_prev := preem_prev preem\<rparr> = preem" by simp
  ultimately show ?thesis using pre by simp
qed

theorem preemphasis_deemphasis_identity_witness:
  "\<exists>preem' filtered.
      LINNEPreemphasisFilter_Preemphasis 5 \<lparr>preem_prev = 64, preem_coef = 15\<rparr> [100, - 200, 300] 3
        = Inr (preem', filtered) \<and>
      preem_coef preem' = 15 \<and>
      LINNEPreemphasisFilter_Deemphasis 5 (preem'\<lparr>preem_prev := 64\<rparr>) filtered 3
        = Inr (preem', [100, - 200, 300])"
  using preemphasis_deemphasis_identity
    [of "[100, - 200, 300]" 3 5 "\<lparr>preem_prev = 64, preem_coef = 15\<rparr>"]
  by simp


section \<open>Prediction and synthesis\<close>

lemma lpc_taps_returns:
  assumes "ntaps \<le> length c" "ntaps \<le> smpl" "smpl \<le> length d"
  shows "\<exists>p. lpc_taps c d smpl ntaps p0 = Inr p"
proof -
  have "\<exists>t. lpc_taps c d smpl ntaps p0 = Inr t \<and> True"
    unfolding lpc_taps_def
    by (rule for_loop_inv [where I = "\<lambda>_ _. True"]) (use assms in auto)
  then show ?thesis by simp
qed

lemma lpc_taps_prefix:
  assumes "take smpl d = take smpl d'" "smpl \<le> length d" "smpl \<le> length d'" "ntaps \<le> smpl"
  shows "lpc_taps c d smpl ntaps p0 = lpc_taps c d' smpl ntaps p0"
  unfolding lpc_taps_def
proof (rule for_loop_cong_range)
  fix j :: nat and t :: int32
  assume "0 \<le> j" "j < ntaps"
  show "bnd (rd c j) (\<lambda>cv. bnd (rd d (smpl - j - 1)) (\<lambda>dv. Inr (t + cv * dv))) =
        bnd (rd c j) (\<lambda>cv. bnd (rd d' (smpl - j - 1)) (\<lambda>dv. Inr (t + cv * dv)))"
  proof -
    have lt: "smpl - j - 1 < smpl" using \<open>j < ntaps\<close> assms(4) by simp
    have "d ! (smpl - j - 1) = take smpl d ! (smpl - j - 1)" using lt by simp
    also have "\<dots> = d' ! (smpl - j - 1)" using lt assms(1) by simp
    finally have "rd d (smpl - j - 1) = rd d' (smpl - j - 1)"
      using lt assms(2,3) by (simp add: rd_def)
    then show ?thesis by simp
  qed
qed

lemma half_bias_shifts_to_zero:
  assumes "0 < shift" "shift < 32"
  shows "signed_drop_bit shift (push_bit (shift - 1) (1 :: int32)) = 0"
  by (rule bit_word_eqI)
     (use assms in \<open>auto simp: bit_signed_drop_bit_iff bit_push_bit_iff bit_1_iff bit_exp_iff\<close>)

lemma lpc_pred_no_taps:
  assumes "0 < shift" "shift < 32"
  shows "lpc_pred c d smpl 0 shift = 0"
  using assms half_bias_shifts_to_zero [OF assms]
  by (simp add: lpc_pred_def lpc_taps_def for_loop_done)

lemma predict_step:
  assumes "0 < shift" "shift < 32" "ntaps \<le> length c" "ntaps \<le> j" "j \<le> length d"
    "j < length res"
  shows "bnd (shl32 1 (shift - 1)) (\<lambda>p0.
         bnd (lpc_taps c d j ntaps p0) (\<lambda>predict.
         bnd (sar32 predict shift) (\<lambda>q. upd res j (\<lambda>v. v + q)))) =
         Inr (res[j := res ! j + lpc_pred c d j ntaps shift])"
proof -
  obtain p where p: "lpc_taps c d j ntaps (push_bit (shift - 1) 1) = Inr p"
    using lpc_taps_returns [OF assms(3,4,5)] by blast
  show ?thesis using assms p by (simp add: lpc_pred_def)
qed

lemma synth_step:
  assumes "0 < shift" "shift < 32" "ntaps \<le> length c" "ntaps \<le> j" "j \<le> length d"
    "j < length res"
  shows "bnd (shl32 1 (shift - 1)) (\<lambda>p0.
         bnd (lpc_taps c d j ntaps p0) (\<lambda>predict.
         bnd (sar32 predict shift) (\<lambda>q. upd res j (\<lambda>v. v - q)))) =
         Inr (res[j := res ! j - lpc_pred c d j ntaps shift])"
proof -
  obtain p where p: "lpc_taps c d j ntaps (push_bit (shift - 1) 1) = Inr p"
    using lpc_taps_returns [OF assms(3,4,5)] by blast
  show ?thesis using assms p by (simp add: lpc_pred_def)
qed

lemma Predict_result:
  assumes len: "length x = N" "length c = order" "length r0 = N"
    and sh: "0 < shift" "shift < 32" and ord: "order \<le> N \<or> order \<le> 1"
  shows "LPC_Predict (Some x) N (Some c) order (Some r0) shift =
     Inr (LPC_APIRESULT_OK,
          Some (map (\<lambda>k. x ! k + lpc_pred c x k (min k order) shift) [0..<N]))"
proof -
  define st where "st j = map (\<lambda>k. if k < j then x ! k + lpc_pred c x k (min k order) shift
                                  else x ! k) [0..<N]" for j
  have lst: "length (st j) = N" for j by (simp add: st_def)
  have st0: "st 0 = x" using len(1) map_nth [of x] by (simp add: st_def)
  have st1: "st (Suc 0) = x"
    by (rule nth_equalityI) (use len sh in \<open>auto simp: st_def lpc_pred_no_taps\<close>)
  have stN: "st j = map (\<lambda>k. x ! k + lpc_pred c x k (min k order) shift) [0..<N]" if "N \<le> j" for j
    using that by (simp add: st_def)
  have upd_st: "(st j)[j := st j ! j + lpc_pred c x j (min j order) shift] = st (Suc j)"
    if "j < N" for j
    by (rule nth_equalityI) (use that in \<open>auto simp: st_def nth_list_update less_Suc_eq\<close>)
  let ?b1 = "\<lambda>smpl res.
               bnd (shl32 1 (shift - 1)) (\<lambda>p0.
               bnd (lpc_taps c x smpl smpl p0) (\<lambda>predict.
               bnd (sar32 predict shift) (\<lambda>q. upd res smpl (\<lambda>v. v + q))))"
  let ?b2 = "\<lambda>smpl res.
               bnd (shl32 1 (shift - 1)) (\<lambda>p0.
               bnd (lpc_taps c x smpl order p0) (\<lambda>predict.
               bnd (sar32 predict shift) (\<lambda>q. upd res smpl (\<lambda>v. v + q))))"
  have loop1: "for_loop 1 order ?b1 (st 1) = Inr (st (max 1 order))"
  proof (rule for_loop_fill)
    fix j assume j: "1 \<le> j" "j < order"
    then have jN: "j < N" using ord by auto
    have "?b1 j (st j) = Inr ((st j)[j := st j ! j + lpc_pred c x j j shift])"
      by (rule predict_step) (use j jN len sh in \<open>simp_all add: lst\<close>)
    moreover have "min j order = j" using j by simp
    ultimately show "?b1 j (st j) = Inr (st (Suc j))" using upd_st [OF jN] by simp
  qed
  have loop2: "for_loop order N ?b2 (st order) = Inr (st (max order N))"
  proof (rule for_loop_fill)
    fix j assume j: "order \<le> j" "j < N"
    have "?b2 j (st j) = Inr ((st j)[j := st j ! j + lpc_pred c x j order shift])"
      by (rule predict_step) (use j len sh in \<open>simp_all add: lst\<close>)
    moreover have "min j order = order" using j by simp
    ultimately show "?b2 j (st j) = Inr (st (Suc j))" using upd_st [OF j(2)] by simp
  qed
  have mid: "st (max 1 order) = st order"
  proof (cases "order = 0")
    case True
    then show ?thesis using st0 st1 by simp
  next
    case False
    then have "max 1 order = order" by simp
    then show ?thesis by simp
  qed
  have mem: "memcpy_n r0 x N = Inr x" using len by (simp add: memcpy_n_def)
  have l1: "for_loop 1 order ?b1 x = Inr (st order)"
    using loop1 mid st1 by simp
  have l2: "for_loop order N ?b2 (st order) =
      Inr (map (\<lambda>k. x ! k + lpc_pred c x k (min k order) shift) [0..<N])"
    using loop2 stN [of "max order N"] by simp
  show ?thesis
    unfolding LPC_Predict_def lpc_taps_def [symmetric]
    using sh mem l1 l2 by simp
qed


lemma lpc_pred_prefix:
  assumes "take smpl d = take smpl d'" "smpl \<le> length d" "smpl \<le> length d'" "ntaps \<le> smpl"
  shows "lpc_pred c d smpl ntaps shift = lpc_pred c d' smpl ntaps shift"
  by (simp add: lpc_pred_def lpc_taps_prefix [OF assms])

lemma Synthesize_result:
  assumes len: "length x = N" "length c = order"
    and sh: "0 < shift" "shift < 32" and ord: "order \<le> N \<or> order \<le> 1"
    and r: "r = map (\<lambda>k. x ! k + lpc_pred c x k (min k order) shift) [0..<N]"
  shows "LPC_Synthesize (Some r) N (Some c) order shift = Inr (LPC_APIRESULT_OK, Some x)"
proof -
  define st where "st j = map (\<lambda>k. if k < j then x ! k else r ! k) [0..<N]" for j
  have lst: "length (st j) = N" for j by (simp add: st_def)
  have lr: "length r = N" by (simp add: r)
  have st0: "st 0 = r" using lr map_nth [of r] by (simp add: st_def)
  have st1: "st (Suc 0) = r"
    by (rule nth_equalityI) (use len sh in \<open>auto simp: st_def r lpc_pred_no_taps\<close>)
  have stN: "st j = x" if "N \<le> j" for j
    by (rule nth_equalityI) (use that len in \<open>auto simp: st_def\<close>)
  have pre: "take j (st j) = take j x" if "j \<le> N" for j
    by (rule nth_equalityI) (use that len in \<open>auto simp: st_def\<close>)
  have upd_st: "(st j)[j := st j ! j - lpc_pred c (st j) j (min j order) shift] = st (Suc j)"
    if "j < N" for j
  proof -
    have "lpc_pred c (st j) j (min j order) shift = lpc_pred c x j (min j order) shift"
      by (rule lpc_pred_prefix) (use that len pre [of j] in \<open>simp_all add: lst\<close>)
    then show ?thesis
      by (intro nth_equalityI) (use that in \<open>auto simp: st_def r nth_list_update less_Suc_eq\<close>)
  qed
  let ?b1 = "\<lambda>smpl dat.
               bnd (shl32 1 (shift - 1)) (\<lambda>p0.
               bnd (lpc_taps c dat smpl smpl p0) (\<lambda>predict.
               bnd (sar32 predict shift) (\<lambda>q. upd dat smpl (\<lambda>v. v - q))))"
  let ?b2 = "\<lambda>smpl dat.
               bnd (shl32 1 (shift - 1)) (\<lambda>p0.
               bnd (lpc_taps c dat smpl order p0) (\<lambda>predict.
               bnd (sar32 predict shift) (\<lambda>q. upd dat smpl (\<lambda>v. v - q))))"
  have loop1: "for_loop 1 order ?b1 (st 1) = Inr (st (max 1 order))"
  proof (rule for_loop_fill)
    fix j assume j: "1 \<le> j" "j < order"
    then have jN: "j < N" using ord by auto
    have "?b1 j (st j) = Inr ((st j)[j := st j ! j - lpc_pred c (st j) j j shift])"
      by (rule synth_step) (use j jN len sh in \<open>simp_all add: lst\<close>)
    moreover have "min j order = j" using j by simp
    ultimately show "?b1 j (st j) = Inr (st (Suc j))" using upd_st [OF jN] by simp
  qed
  have loop2: "for_loop order N ?b2 (st order) = Inr (st (max order N))"
  proof (rule for_loop_fill)
    fix j assume j: "order \<le> j" "j < N"
    have "?b2 j (st j) = Inr ((st j)[j := st j ! j - lpc_pred c (st j) j order shift])"
      by (rule synth_step) (use j len sh in \<open>simp_all add: lst\<close>)
    moreover have "min j order = order" using j by simp
    ultimately show "?b2 j (st j) = Inr (st (Suc j))" using upd_st [OF j(2)] by simp
  qed
  have mid: "st (max 1 order) = st order"
  proof (cases "order = 0")
    case True
    then show ?thesis using st0 st1 by simp
  next
    case False
    then have "max 1 order = order" by simp
    then show ?thesis by simp
  qed
  have l1: "for_loop 1 order ?b1 r = Inr (st order)"
    using loop1 mid st1 by simp
  have l2: "for_loop order N ?b2 (st order) = Inr x"
    using loop2 stN [of "max order N"] by simp
  show ?thesis
    unfolding LPC_Synthesize_def lpc_taps_def [symmetric]
    using sh l1 l2 by simp
qed

text \<open>
  C1, as the code has it: for a sample array \<open>x\<close> of length \<open>N\<close>, a coefficient array
  of length \<open>order\<close> with \<open>order \<le> N\<close> (or \<open>order \<le> 1\<close>), and a shift between 1 and
  31, \<open>LPC_Predict\<close> returns \<open>LPC_APIRESULT_OK\<close> with a residual on which
  \<open>LPC_Synthesize\<close>, with the same coefficients and shift, returns
  \<open>LPC_APIRESULT_OK\<close> and exactly \<open>x\<close> (32-bit wrap-around arithmetic).
\<close>

theorem predict_synthesize_identity:
  assumes "length x = N" and "length c = order" and "length r0 = N"
    and "0 < shift" and "shift < 32" and "order \<le> N \<or> order \<le> 1"
  shows "\<exists>res. LPC_Predict (Some x) N (Some c) order (Some r0) shift
                 = Inr (LPC_APIRESULT_OK, Some res) \<and>
               LPC_Synthesize (Some res) N (Some c) order shift
                 = Inr (LPC_APIRESULT_OK, Some x)"
  using Predict_result [OF assms] Synthesize_result [OF assms(1,2,4,5,6) refl]
  by blast

text \<open>
  The theorem at the spec's second scenario: \<open>x = [100, 200, 300, 400, 500]\<close>,
  \<open>c = [0x4000, -0x1000]\<close>, \<open>shift = 14\<close>.
\<close>

theorem predict_synthesize_identity_witness:
  "\<exists>res. LPC_Predict (Some [100, 200, 300, 400, 500]) 5 (Some [0x4000, - 0x1000]) 2
              (Some [0, 0, 0, 0, 0]) 14 = Inr (LPC_APIRESULT_OK, Some res) \<and>
          LPC_Synthesize (Some res) 5 (Some [0x4000, - 0x1000]) 2 14
            = Inr (LPC_APIRESULT_OK, Some [100, 200, 300, 400, 500])"
  using predict_synthesize_identity
    [of "[100, 200, 300, 400, 500]" 5 "[0x4000, - 0x1000]" 2 "[0, 0, 0, 0, 0]" 14]
  by simp

text \<open>
  C1 as the spec states it, for any order and any positive shift, fails: with one
  sample and two coefficients the ramp-up loop of \<open>LPC_Predict\<close> writes
  \<open>residual[1]\<close>, outside the array, and with \<open>coef_rshift = 32\<close> the statement
  \<open>predict >> coef_rshift\<close> shifts an \<open>int32_t\<close> by its width.
\<close>

theorem predict_undefined_inputs:
  "LPC_Predict (Some [1]) 1 (Some [0, 0]) 2 (Some [0]) 1 = Inl OutOfBounds \<and>
   LPC_Predict (Some [1]) 1 (Some []) 0 (Some [0]) 32 = Inl ShiftOutOfRange"
  by (simp add: LPC_Predict_def memcpy_n_def for_loop_step for_loop_done
        shl32_def sar32_def upd_def rd_def)


section \<open>The entry points at concrete blocks\<close>

lemma calc_1_2_created:
  "LPCCalculator_Create \<lparr>cfg_max_order = 1, cfg_max_num_samples = 2\<rparr> (replicate 21 (Fin 0))
     = Some calc_1_2"
  by code_simp

lemma calc_3_2_created:
  "LPCCalculator_Create \<lparr>cfg_max_order = 3, cfg_max_num_samples = 2\<rparr> (replicate 45 (Fin 0))
     = Some calc_3_2"
  by code_simp

subsection \<open>The Welch window on three samples\<close>

text \<open>
  C7 at a block of odd length: for \<open>N = 3\<close> and \<open>n = 1\<close> the formula gives the
  weight \<open>4 * 1 * 1 / 2^2 = 1\<close>, so the claim puts \<open>x[1] = 1\<close> into \<open>y[1]\<close>. The loop
  of the source runs over \<open>smpl < (3 >> 1)\<close>, that is over \<open>smpl = 0\<close> only, and
  writes \<open>y[0]\<close> and \<open>y[2]\<close>: \<open>y[1]\<close> keeps the 7 that the output array held before
  the call.
\<close>

theorem welch_middle_sample_not_written:
  "LPC_ApplyWindow LPC_WINDOWTYPE_WELCH [Fin 1, Fin 1, Fin 1] 3 [Fin 7, Fin 7, Fin 7]
     = Inr (LPC_ERROR_OK, [Fin 0, Fin 7, Fin 0])"
  by (simp add: LPC_ApplyWindow_def Let_def for_loop.simps dbl_ev u32_sub_def wr_def rd_def)

text \<open>The sine window, next to it in the \<open>switch\<close>, writes every sample of the block.\<close>

lemma sin_window_writes_all:
  "\<exists>w. LPC_ApplyWindow LPC_WINDOWTYPE_SIN [Fin 0, Fin 1, Fin 0] 3 [Fin 7, Fin 7, Fin 7]
     = Inr (LPC_ERROR_OK, [Fin 0, Fin w, Fin 0])"
  by (simp add: LPC_ApplyWindow_def for_loop.simps dbl_ev u32_sub_def wr_def rd_def LPC_PI_def)

subsection \<open>A silent block\<close>

text \<open>
  C2 at the silent block \<open>[0, 0]\<close> with order 1: in
  \<open>LPCCalculator_CalculateLPCCoefficientsBurg\<close> both \<open>Ck\<close> and \<open>FkpBk\<close> are zero, so
  \<open>mu = -2.0 * Ck / FkpBk\<close> is a NaN. The \<open>assert(fabs(mu) <= 1.0)\<close> aborts; in a
  build with \<open>NDEBUG\<close> the call returns \<open>LPC_APIRESULT_OK\<close> and writes a NaN into
  the coefficient array.
\<close>

theorem burg_silent_block:
  "status_and_coef (LPCCalculator_CalculateLPCCoefficientsBurg False (Some calc_1_2)
       (Some [Fin 0, Fin 0]) 2 (Some [Fin 5]) 1) = Inl AssertionFailed \<and>
   status_and_coef (LPCCalculator_CalculateLPCCoefficientsBurg True (Some calc_1_2)
       (Some [Fin 0, Fin 0]) 2 (Some [Fin 5]) 1) = Inr (LPC_APIRESULT_OK, Some [NaN])"
  by (simp add: calc_1_2_def status_and_coef_def LPCCalculator_CalculateLPCCoefficientsBurg_def
        LPC_CalculateCoefBurg_def LPC_CalculateAutoCorrelation_def for_loop.simps
        dbl_ev mem_ev u32_sub_def)

text \<open>
  On the same block the other two entry points return \<open>LPC_APIRESULT_OK\<close> and a zero
  coefficient: their guards on \<open>auto_corr[0]\<close> fire.
\<close>

lemma levinson_silent_block:
  "status_and_coef (LPCCalculator_CalculateLPCCoefficients False (Some calc_1_2)
       (Some [Fin 0, Fin 0]) 2 (Some [Fin 5]) 1 LPC_WINDOWTYPE_RECTANGULAR)
     = Inr (LPC_APIRESULT_OK, Some [Fin 0])"
  by (simp add: calc_1_2_def status_and_coef_def LPCCalculator_CalculateLPCCoefficients_def
        LPC_CalculateCoef_def LPC_ApplyWindow_def LPC_LevinsonDurbinRecursion_def FLT_EPSILON_def
        LPC_CalculateAutoCorrelation_def for_loop.simps dbl_ev mem_ev u32_sub_def)

lemma af_silent_block:
  "status_and_coef (LPCCalculator_CalculateLPCCoefficientsAF False (Some calc_1_2)
       (Some [Fin 0, Fin 0]) 2 (Some [Fin 5]) 1 10 LPC_WINDOWTYPE_RECTANGULAR)
     = Inr (LPC_APIRESULT_OK, Some [Fin 0])"
  by (simp add: calc_1_2_def status_and_coef_def LPCCalculator_CalculateLPCCoefficientsAF_def
        LPC_CalculateCoefAF_def LPC_CalculateCoef_def LPC_ApplyWindow_def
        LPC_LevinsonDurbinRecursion_def FLT_EPSILON_def
        LPC_CalculateAutoCorrelation_def for_loop.simps dbl_ev mem_ev u32_sub_def)

subsection \<open>A block longer than the calculator's bound\<close>

text \<open>
  C5 at a block of three samples on a calculator created for two: the Burg entry
  point has no check of \<open>num_samples\<close> and returns \<open>LPC_APIRESULT_OK\<close> with the
  coefficient \<open>-4/5\<close>; the auxiliary-function entry point has none either, and the
  window is copied over the end of the calculator's two-sample buffer.
\<close>

theorem burg_and_af_ignore_max_num_samples:
  "status_and_coef (LPCCalculator_CalculateLPCCoefficientsBurg False (Some calc_1_2)
       (Some [Fin 1, Fin 1, Fin 1]) 3 (Some [Fin 5]) 1)
     = Inr (LPC_APIRESULT_OK, Some [Fin (- 4 / 5)]) \<and>
   status_and_coef (LPCCalculator_CalculateLPCCoefficientsAF False (Some calc_1_2)
       (Some [Fin 1, Fin 1, Fin 1]) 3 (Some [Fin 5]) 1 10 LPC_WINDOWTYPE_RECTANGULAR)
     = Inl OutOfBounds"
  by (simp add: calc_1_2_def status_and_coef_def LPCCalculator_CalculateLPCCoefficientsBurg_def
        LPC_CalculateCoefBurg_def LPC_CalculateAutoCorrelation_def
        LPCCalculator_CalculateLPCCoefficientsAF_def LPC_CalculateCoefAF_def LPC_CalculateCoef_def
        LPC_ApplyWindow_def for_loop.simps dbl_ev mem_ev u32_sub_def)

text \<open>The Levinson-Durbin entry point has the check.\<close>

lemma levinson_checks_max_num_samples:
  "status_and_coef (LPCCalculator_CalculateLPCCoefficients ndebug (Some l) (Some d) num_samples
       (Some c) coef_order window_type) = Inr (LPC_APIRESULT_EXCEED_MAX_NUM_SAMPLES, Some c)"
  if "coef_order \<le> lpcc_max_order l" and "lpcc_max_num_buffer_samples l < num_samples"
  using that by (simp add: status_and_coef_def LPCCalculator_CalculateLPCCoefficients_def)

subsection \<open>A block shorter than the order\<close>

text \<open>
  C10 at a block of one sample with order 3, on a calculator created for order 3:
  \<open>LPC_CalculateCoef\<close> calls \<open>LPC_CalculateAutoCorrelation\<close> with \<open>order = 4\<close>
  before it looks at the block length. There \<open>assert(num_samples >= order)\<close> aborts;
  in a build with \<open>NDEBUG\<close> the bound \<open>num_samples - Llag2 - lag\<close> of the last loop
  wraps around at \<open>lag = 2\<close> and the loop reads past the end of the calculator's
  buffer. The branch that zeroes the coefficients of a short block is never reached.
\<close>

theorem levinson_short_block:
  "status_and_coef (LPCCalculator_CalculateLPCCoefficients False (Some calc_3_2)
       (Some [Fin (1 / 2)]) 1 (Some [Fin 5, Fin 5, Fin 5]) 3 LPC_WINDOWTYPE_RECTANGULAR)
     = Inl AssertionFailed \<and>
   status_and_coef (LPCCalculator_CalculateLPCCoefficients True (Some calc_3_2)
       (Some [Fin (1 / 2)]) 1 (Some [Fin 5, Fin 5, Fin 5]) 3 LPC_WINDOWTYPE_RECTANGULAR)
     = Inl OutOfBounds"
  by (simp add: calc_3_2_def status_and_coef_def LPCCalculator_CalculateLPCCoefficients_def
        LPC_CalculateCoef_def LPC_ApplyWindow_def LPC_LevinsonDurbinRecursion_def
        LPC_CalculateAutoCorrelation_def for_loop.simps dbl_ev mem_ev u32_sub_def)


section \<open>The coefficient quantizer\<close>

lemma foldl_max_ge: "(a :: real) \<le> foldl (\<lambda>m x. max m \<bar>x\<bar>) a c"
proof (induction c arbitrary: a)
  case Nil
  then show ?case by simp
next
  case (Cons y c)
  have "a \<le> max a \<bar>y\<bar>" by simp
  also have "\<dots> \<le> foldl (\<lambda>m x. max m \<bar>x\<bar>) (max a \<bar>y\<bar>) c" by (rule Cons)
  finally show ?case by simp
qed

lemma foldl_max_upper: "x \<in> set c \<Longrightarrow> \<bar>x\<bar> \<le> foldl (\<lambda>m x. max m \<bar>x\<bar>) (a :: real) c"
proof (induction c arbitrary: a)
  case Nil
  then show ?case by simp
next
  case (Cons y c)
  show ?case
  proof (cases "x = y")
    case True
    have "\<bar>y\<bar> \<le> max a \<bar>y\<bar>" by simp
    also have "\<dots> \<le> foldl (\<lambda>m x. max m \<bar>x\<bar>) (max a \<bar>y\<bar>) c" by (rule foldl_max_ge)
    finally show ?thesis using True by simp
  next
    case False
    then show ?thesis using Cons by simp
  qed
qed

lemma foldl_max_attained:
  "foldl (\<lambda>m x. max m \<bar>x\<bar>) (a :: real) c = a \<or>
     (\<exists>x\<in>set c. foldl (\<lambda>m x. max m \<bar>x\<bar>) a c = \<bar>x\<bar>)"
proof (induction c arbitrary: a)
  case Nil
  then show ?case by simp
next
  case (Cons y c)
  from Cons [of "max a \<bar>y\<bar>"] show ?case
    by (auto simp: max_def split: if_splits)
qed

lemma coef_max_upper: "x \<in> set c \<Longrightarrow> \<bar>x\<bar> \<le> coef_max c"
  unfolding coef_max_def by (rule foldl_max_upper)

lemma coef_max_nonneg: "0 \<le> coef_max c"
  unfolding coef_max_def by (rule foldl_max_ge)

lemma coef_max_attained: "coef_max c = 0 \<or> (\<exists>x\<in>set c. coef_max c = \<bar>x\<bar>)"
  unfolding coef_max_def by (rule foldl_max_attained)

lemma max_loop:
  "for_loop 0 (length c)
     (\<lambda>ord mx. bnd (rd (map Fin c) ord) (\<lambda>x. Inr (if dlt mx (dfabs x) then dfabs x else mx))) 0
   = Inr (Fin (coef_max c))"
proof -
  let ?body = "\<lambda>ord mx. bnd (rd (map Fin c) ord) (\<lambda>x. Inr (if dlt mx (dfabs x) then dfabs x else mx))"
  have "for_loop 0 (length c) ?body (Fin (coef_max (take 0 c))) = Inr (Fin (coef_max (take (max 0 (length c)) c)))"
  proof (rule for_loop_fill [where st = "\<lambda>j. Fin (coef_max (take j c))"])
    fix j assume j: "0 \<le> j" "j < length c"
    have "take (Suc j) c = take j c @ [c ! j]" using j by (simp add: take_Suc_conv_app_nth)
    then have "coef_max (take (Suc j) c) = max (coef_max (take j c)) \<bar>c ! j\<bar>"
      by (simp add: coef_max_def)
    then show "?body j (Fin (coef_max (take j c))) = Inr (Fin (coef_max (take (Suc j) c)))"
      using j by (simp add: rd_def max_def)
  qed
  then show ?thesis by (simp add: coef_max_def zero_dbl_def)
qed

lemma LPC_Round_Fin: "LPC_Round (Fin x) = Fin (of_int (lpc_round_int x))"
  by (simp add: LPC_Round_def lpc_round_int_def dge_def zero_dbl_def)

lemma lpc_round_int_near: "\<bar>of_int (lpc_round_int x) - x\<bar> \<le> 1 / 2"
proof (cases "0 \<le> x")
  case True
  have "\<bar>of_int \<lfloor>x + 1 / 2\<rfloor> - x\<bar> \<le> 1 / 2" by linarith
  then show ?thesis using True by (simp only: lpc_round_int_def if_True)
next
  case False
  have "\<bar>- of_int \<lfloor>- x + 1 / 2\<rfloor> - x\<bar> \<le> 1 / 2" by linarith
  then show ?thesis using False by (simp only: lpc_round_int_def if_False of_int_minus)
qed

lemma int32_of_dbl_int:
  assumes "- (2 ^ 31) \<le> r" "r < 2 ^ 31"
  shows "int32_of_dbl (Fin (of_int r)) = Inr (word_of_int r)"
  using assms by (simp add: int32_of_dbl_def)

lemma sint_word_of_int_32:
  assumes "- (2 ^ 31) \<le> r" "r < 2 ^ 31"
  shows "sint (word_of_int r :: int32) = r"
  using assms by (simp add: sint_sbintrunc' signed_take_bit_int_eq_self)


lemma sint_two_power:
  assumes "n \<le> 30"
  shows "sint (2 ^ n :: int32) = 2 ^ n"
    and "sint (- (2 ^ n) :: int32) = - (2 ^ n)"
    and "sint (2 ^ n - 1 :: int32) = 2 ^ n - 1"
proof -
  have "(2 :: int) ^ n \<le> 2 ^ 30" by (rule power_increasing) (use assms in simp_all)
  then have lt: "(2 :: int) ^ n < 2 ^ 31" by simp
  have pos: "(0 :: int) < 2 ^ n" by simp
  have "sint (word_of_int (2 ^ n) :: int32) = 2 ^ n"
    by (rule sint_word_of_int_32) (use lt pos in linarith)+
  then show "sint (2 ^ n :: int32) = 2 ^ n" by simp
  have "sint (word_of_int (- (2 ^ n)) :: int32) = - (2 ^ n)"
    by (rule sint_word_of_int_32) (use lt pos in linarith)+
  then show "sint (- (2 ^ n) :: int32) = - (2 ^ n)" by simp
  have "sint (word_of_int (2 ^ n - 1) :: int32) = 2 ^ n - 1"
    by (rule sint_word_of_int_32) (use lt pos in linarith)+
  then show "sint (2 ^ n - 1 :: int32) = 2 ^ n - 1" by simp
qed

text \<open>One step of the quantization loop, on the reals.\<close>

lemma quantize_step:
  fixes e s :: real and k :: nat
  assumes n: "n \<le> 30" and s: "\<bar>s\<bar> < 2 ^ n" and e: "- (1 / 2) \<le> e" "e \<le> 1 / 2 + real k"
    and k: "k < 2 ^ 30"
  defines "r \<equiv> lpc_round_int (e + s)"
  defines "q \<equiv> (if sint (2 ^ n :: int32) \<le> sint (word_of_int r :: int32) then (2 ^ n - 1 :: int32)
                  else if sint (word_of_int r :: int32) < sint (- (2 ^ n) :: int32) then - (2 ^ n)
                  else word_of_int r)"
  shows "int32_of_dbl (LPC_Round (Fin (e + s))) = Inr (word_of_int r)"
    and "- (2 ^ n) \<le> sint q" and "sint q < 2 ^ n"
    and "- (1 / 2) \<le> e + s - real_of_int (sint q)"
    and "e + s - real_of_int (sint q) \<le> 1 / 2 + real (Suc k)"
proof -
  have near: "\<bar>real_of_int r - (e + s)\<bar> \<le> 1 / 2"
    unfolding r_def by (rule lpc_round_int_near)
  have p30: "(2 :: int) ^ n \<le> 2 ^ 30" by (rule power_increasing) (use n in simp_all)
  have rp: "real_of_int (2 ^ n) = 2 ^ n" by simp
  have lo: "- (2 ^ n) \<le> r"
  proof -
    have "- (2 ^ n) - 1 < real_of_int r" using near s e(1) by linarith
    then have "real_of_int (- (2 ^ n) - 1) < real_of_int r" by simp
    then have "- (2 ^ n) - 1 < r" by (simp only: of_int_less_iff)
    then show ?thesis by simp
  qed
  have hi: "r \<le> 2 ^ n + int k"
  proof -
    have "real_of_int r < 2 ^ n + real k + 1" using near s e(2) by linarith
    then have "real_of_int r < real_of_int (2 ^ n + int k + 1)" by simp
    then have "r < 2 ^ n + int k + 1" by (simp only: of_int_less_iff)
    then show ?thesis by simp
  qed
  have range: "- (2 ^ 31) \<le> r" "r < 2 ^ 31" using lo hi p30 k by simp_all
  show "int32_of_dbl (LPC_Round (Fin (e + s))) = Inr (word_of_int r)"
    unfolding LPC_Round_Fin r_def [symmetric] by (rule int32_of_dbl_int) (rule range)+
  have sr: "sint (word_of_int r :: int32) = r" by (rule sint_word_of_int_32) (rule range)+
  have sq: "sint q = (if 2 ^ n \<le> r then 2 ^ n - 1 else r)"
    using lo by (simp add: q_def sr sint_two_power [OF n])
  show "- (2 ^ n) \<le> sint q" using lo by (simp add: sq)
  show "sint q < 2 ^ n" by (simp add: sq)
  have sq_hi: "real_of_int (sint q) = 2 ^ n - 1" "(2 :: real) ^ n \<le> real_of_int r" if "2 ^ n \<le> r"
  proof -
    show "real_of_int (sint q) = 2 ^ n - 1" using that by (simp add: sq)
    have "real_of_int (2 ^ n) \<le> real_of_int r" using that by (simp only: of_int_le_iff)
    then show "(2 :: real) ^ n \<le> real_of_int r" by simp
  qed
  have sq_lo: "real_of_int (sint q) = real_of_int r" if "\<not> 2 ^ n \<le> r"
    using that by (simp add: sq)
  show "- (1 / 2) \<le> e + s - real_of_int (sint q)"
  proof (cases "2 ^ n \<le> r")
    case True
    show ?thesis using near sq_hi(2) [OF True] unfolding sq_hi(1) [OF True] by linarith
  next
    case False
    show ?thesis using near unfolding sq_lo [OF False] by linarith
  qed
  show "e + s - real_of_int (sint q) \<le> 1 / 2 + real (Suc k)"
  proof (cases "2 ^ n \<le> r")
    case True
    show ?thesis using s e(2) unfolding sq_hi(1) [OF True] by simp
  next
    case False
    have "e + s - real_of_int r \<le> 1 / 2 + (real k + 1)" using near by linarith
    then show ?thesis unfolding sq_lo [OF False] by simp
  qed
qed

lemma frexp_bounds:
  assumes "0 < M"
  shows "2 powr (of_int (\<lfloor>log 2 M\<rfloor> + 1) - 1) \<le> M" and "M < 2 powr (of_int (\<lfloor>log 2 M\<rfloor> + 1))"
proof -
  have "of_int \<lfloor>log 2 M\<rfloor> \<le> log 2 M" by simp
  then have "2 powr (of_int \<lfloor>log 2 M\<rfloor>) \<le> M" using assms by (simp add: powr_le_iff)
  then show "2 powr (of_int (\<lfloor>log 2 M\<rfloor> + 1) - 1) \<le> M" by simp
  have "log 2 M < of_int \<lfloor>log 2 M\<rfloor> + 1" by linarith
  then show "M < 2 powr (of_int (\<lfloor>log 2 M\<rfloor> + 1))" using assms by (simp add: less_powr_iff)
qed

lemma quant_loop:
  fixes c :: "real list"
  assumes len: "length ic = length c" and n: "n \<le> 30" and ord: "length c < 2 ^ 30"
    and sh: "sh \<le> 1023"
    and sc: "\<And>x. x \<in> set c \<Longrightarrow> \<bar>x * 2 ^ sh\<bar> < 2 ^ n"
  shows "\<exists>qe q. for_down (int (length c) - 1) (quant_body (map Fin c) (2 ^ n) sh) (0, ic) = Inr (qe, q)
           \<and> length q = length c
           \<and> (\<forall>i<length c. - (2 ^ n) \<le> sint (q ! i) \<and> sint (q ! i) < 2 ^ n)"
proof -
  define I where "I j t \<longleftrightarrow>
     (\<exists>e. fst t = Fin e \<and> - (1 / 2) \<le> e \<and> e \<le> 1 / 2 + real (nat (int (length c) - 1 - j)))
     \<and> length (snd t) = length c
     \<and> (\<forall>i. nat (j + 1) \<le> i \<and> i < length c \<longrightarrow>
            - (2 ^ n) \<le> sint (snd t ! i) \<and> sint (snd t ! i) < 2 ^ n)"
    for j :: int and t :: "dbl \<times> int32 list"
  have "\<exists>t. for_down (int (length c) - 1) (quant_body (map Fin c) (2 ^ n) sh) (0, ic) = Inr t \<and> I (- 1) t"
  proof (rule for_down_inv)
    show "I (int (length c) - 1) (0, ic)"
      by (simp add: I_def zero_dbl_def len)
    show "- 1 \<le> int (length c) - 1" by simp
    fix j :: int and t :: "dbl \<times> int32 list"
    assume j: "0 \<le> j" "j \<le> int (length c) - 1" and inv: "I j t"
    obtain qe icx where t: "t = (qe, icx)" by (cases t)
    from inv obtain e where e: "qe = Fin e" "- (1 / 2) \<le> e"
        "e \<le> 1 / 2 + real (nat (int (length c) - 1 - j))"
      and lx: "length icx = length c"
      and rng: "\<And>i. nat (j + 1) \<le> i \<Longrightarrow> i < length c \<Longrightarrow>
                 - (2 ^ n) \<le> sint (icx ! i) \<and> sint (icx ! i) < 2 ^ n"
      by (auto simp: I_def t)
    define k where "k = nat (int (length c) - 1 - j)"
    define s where "s = c ! nat j * 2 ^ sh"
    define r where "r = lpc_round_int (e + s)"
    define q :: int32 where "q = (if sint (2 ^ n :: int32) \<le> sint (word_of_int r :: int32) then 2 ^ n - 1
                  else if sint (word_of_int r :: int32) < sint (- (2 ^ n) :: int32) then - (2 ^ n)
                  else word_of_int r)"
    have jl: "nat j < length c" using j by simp
    have kb: "k < 2 ^ 30" using ord j by (simp add: k_def)
    have sb: "\<bar>s\<bar> < 2 ^ n" unfolding s_def by (rule sc) (use jl in simp)
    have e3: "e \<le> 1 / 2 + real k" using e(3) by (simp add: k_def)
    have st: "int32_of_dbl (LPC_Round (Fin (e + s))) = Inr (word_of_int r)"
      "- (2 ^ n) \<le> sint q" "sint q < 2 ^ n"
      "- (1 / 2) \<le> e + s - real_of_int (sint q)"
      "e + s - real_of_int (sint q) \<le> 1 / 2 + real (Suc k)"
      unfolding q_def r_def by (rule quantize_step [OF n sb e(2) e3 kb])+
    have dp: "dpow2 (int sh) = Fin (2 ^ sh)" using sh by (simp add: dpow2_def)
    have "quant_body (map Fin c) (2 ^ n) sh j t
            = Inr (Fin (e + s - real_of_int (sint q)), icx[nat j := q])"
      using jl st(1)
      by (simp add: quant_body_def t e(1) dp s_def [symmetric] r_def [symmetric] q_def [symmetric]
            Let_def rd_def wr_def lx dbl_of_int32_def minus_dbl_def)
    moreover have "I (j - 1) (Fin (e + s - real_of_int (sint q)), icx[nat j := q])"
    proof -
      have k': "nat (int (length c) - j) = Suc k" using j by (simp add: k_def)
      have "- (2 ^ n) \<le> sint (icx[nat j := q] ! i) \<and> sint (icx[nat j := q] ! i) < 2 ^ n"
        if "nat (j - 1 + 1) \<le> i" "i < length c" for i
      proof (cases "i = nat j")
        case True
        then show ?thesis using st(2,3) jl lx by simp
      next
        case False
        then have "nat (j + 1) \<le> i" using that(1) j by linarith
        then show ?thesis using rng [of i] that(2) False by simp
      qed
      then show ?thesis using st(4,5) by (simp add: I_def k' lx)
    qed
    ultimately show "\<exists>t'. quant_body (map Fin c) (2 ^ n) sh j t = Inr t' \<and> I (j - 1) t'"
      by blast
  qed
  then show ?thesis by (auto simp: I_def)
qed

lemma int32_of_u32_small: "m < 2 ^ 31 \<Longrightarrow> int32_of_u32 m = int m"
  by (simp add: int32_of_u32_def)

lemma quantize_prelude:
  assumes p: "1 \<le> p" "p \<le> 31"
  shows "u32_sub p 1 = p - 1" and "shl32 1 (p - 1) = Inr (2 ^ (p - 1))"
    and "int32_of_u32 (p - 1) = int (p - 1)"
    and "dpow2 (- int (p - 1)) = Fin (1 / 2 ^ (p - 1))"
proof -
  show "u32_sub p 1 = p - 1" by (rule u32_sub_nowrap) (use p in simp_all)
  show "shl32 1 (p - 1) = Inr (2 ^ (p - 1))" using p by (simp add: shl32_def)
  show "int32_of_u32 (p - 1) = int (p - 1)" by (rule int32_of_u32_small) (use p in simp)
  show "dpow2 (- int (p - 1)) = Fin (1 / 2 ^ (p - 1))"
    using p by (cases "p = 1") (simp_all add: dpow2_def)
qed

lemma quantize_small:
  fixes c :: "real list"
  assumes len: "length ic = length c" and p: "1 \<le> p" "p \<le> 31" and ord: "length c < 2 ^ 30"
    and small: "\<forall>x\<in>set c. \<bar>x\<bar> * 2 ^ (p - 1) \<le> 1"
  shows "LPC_QuantizeCoefficients ndebug (Some (map Fin c)) (length c) p (Some ic) (Some rs)
           = Inr (LPC_APIRESULT_OK, Some (replicate (length c) 0), Some p)"
proof -
  have "coef_max c * 2 ^ (p - 1) \<le> 1"
    using coef_max_attained [of c] small by auto
  then have le: "coef_max c \<le> 1 / 2 ^ (p - 1)" by (simp add: pos_le_divide_eq)
  show ?thesis
    unfolding LPC_QuantizeCoefficients_def
    using p le len max_loop [of c] quantize_prelude [OF p]
    by (simp add: memset_n_def)
qed

lemma quantize_large:
  fixes c :: "real list"
  assumes len: "length ic = length c" and p: "1 \<le> p" "p \<le> 31" and ord: "length c < 2 ^ 30"
    and big: "\<exists>x\<in>set c. 1 < \<bar>x\<bar> * 2 ^ (p - 1)"
    and bound: "\<forall>x\<in>set c. \<bar>x\<bar> * 4 < 2 ^ p"
  shows "\<exists>q sh. LPC_QuantizeCoefficients ndebug (Some (map Fin c)) (length c) p (Some ic) (Some rs)
                  = Inr (LPC_APIRESULT_OK, Some q, Some sh)
           \<and> 0 < sh \<and> length q = length c
           \<and> (\<forall>i<length c. - (2 ^ (p - 1)) \<le> sint (q ! i) \<and> sint (q ! i) < 2 ^ (p - 1))"
proof -
  define M where "M = coef_max c"
  define n where "n = \<lfloor>log 2 M\<rfloor> + 1"
  define sh where "sh = nat (int (p - 1) - n)"
  from big obtain x0 where x0: "x0 \<in> set c" "1 < \<bar>x0\<bar> * 2 ^ (p - 1)" by blast
  have "1 < M * 2 ^ (p - 1)"
  proof -
    have "\<bar>x0\<bar> * 2 ^ (p - 1) \<le> M * 2 ^ (p - 1)"
      using coef_max_upper [OF x0(1)] by (simp add: M_def)
    then show ?thesis using x0(2) by linarith
  qed
  then have gt: "1 / 2 ^ (p - 1) < M" by (simp add: pos_divide_less_eq)
  then have Mpos: "0 < M" by (smt (verit) divide_pos_pos zero_less_power)
  have M4: "M * 4 < 2 ^ p"
    using coef_max_attained [of c] bound Mpos by (auto simp: M_def)
  have fb: "2 powr (of_int n - 1) \<le> M" "M < 2 powr (of_int n)"
    unfolding n_def by (rule frexp_bounds [OF Mpos])+
  have p2: "(2 :: real) ^ p = 2 powr (real p)" by (simp add: powr_realpow)
  have p1: "(2 :: real) ^ (p - 1) = 2 powr (real p - 1)"
    using p by (simp add: powr_realpow [symmetric] of_nat_diff)
  have up: "n < int (p - 1)"
  proof -
    have "M < 2 powr (real p - 2)" using M4 by (simp add: p2 powr_diff)
    then have "2 powr (of_int n - 1) < 2 powr (real p - 2)" using fb(1) by linarith
    then have "real_of_int n - 1 < real p - 2" by simp
    then have "real_of_int n < real_of_int (int p - 1)" by simp
    then have "n < int p - 1" by (simp only: of_int_less_iff)
    then show ?thesis using p by simp
  qed
  have lo: "1 - int p < n"
  proof -
    have "2 powr (- (real p - 1)) = 1 / 2 powr (real p - 1)" by (rule powr_minus_divide)
    also have "\<dots> = 1 / 2 ^ (p - 1)" by (simp only: p1)
    finally have "2 powr (- (real p - 1)) < M" using gt by (simp only:)
    then have "2 powr (- (real p - 1)) < 2 powr (of_int n)" using fb(2) by linarith
    then have "- (real p - 1) < real_of_int n" by simp
    then have "real_of_int (1 - int p) < real_of_int n" by simp
    then show ?thesis by (simp only: of_int_less_iff)
  qed
  have sh_int: "int sh = int (p - 1) - n" using up by (simp add: sh_def)
  have sh_pos: "0 < sh" using up by (simp add: sh_def)
  have sh_le: "sh \<le> 1023" using lo p by (simp add: sh_def)
  have modsh: "(int (p - 1) - n) mod 2 ^ 32 = int (p - 1) - n"
    using up lo p by (simp add: mod_pos_pos_trivial)
  have fr: "frexp_exp (Fin M) = Inr n" using Mpos by (simp add: frexp_exp_def n_def)
  have sc: "\<bar>x * 2 ^ sh\<bar> < 2 ^ (p - 1)" if "x \<in> set c" for x
  proof -
    have "\<bar>x\<bar> \<le> M" using coef_max_upper [OF that] by (simp add: M_def)
    then have "\<bar>x\<bar> * 2 ^ sh \<le> M * 2 ^ sh" by (simp add: mult_right_mono)
    also have "\<dots> < 2 powr (of_int n) * 2 ^ sh" using fb(2) by simp
    also have "\<dots> = 2 powr (of_int n) * 2 powr (real sh)" by (simp add: powr_realpow)
    also have "\<dots> = 2 powr (of_int n + real sh)" by (simp add: powr_add)
    also have "of_int n + real sh = real p - 1"
    proof -
      have "real_of_int (int sh) = real_of_int (int (p - 1) - n)" by (simp only: sh_int)
      then show ?thesis using p by (simp add: of_nat_diff)
    qed
    finally have "\<bar>x\<bar> * 2 ^ sh < 2 ^ (p - 1)" by (simp only: p1)
    then show ?thesis by (simp add: abs_mult)
  qed
  have n30: "p - 1 \<le> 30" using p by simp
  from quant_loop [OF len n30 ord sh_le sc]
  obtain qe q where loop: "for_down (int (length c) - 1) (quant_body (map Fin c) (2 ^ (p - 1)) sh) (0, ic)
       = Inr (qe, q)"
    and lq: "length q = length c"
    and rng: "\<forall>i<length c. - (2 ^ (p - 1)) \<le> sint (q ! i) \<and> sint (q ! i) < 2 ^ (p - 1)"
    by blast
  have nle: "\<not> M \<le> 1 / 2 ^ (p - 1)" using gt by simp
  have ol: "int32_of_u32 (length c) = int (length c)"
    by (rule int32_of_u32_small) (use ord in simp)
  have "LPC_QuantizeCoefficients ndebug (Some (map Fin c)) (length c) p (Some ic) (Some rs)
          = Inr (LPC_APIRESULT_OK, Some q, Some sh)"
    unfolding LPC_QuantizeCoefficients_def quant_body_def [symmetric]
    using p nle up max_loop [of c] loop quantize_prelude [OF p] fr modsh ol sh_def [symmetric]
    by (simp add: M_def [symmetric] c_assert_def Let_def)
  then show ?thesis using sh_pos lq rng by blast
qed

text \<open>
  C3, as the code has it. The coefficients are finite doubles, fewer than \<open>2^30\<close> of
  them, and the precision \<open>p\<close> is between 1 and 31. If every \<open>|c_i|\<close> is at most
  \<open>2^-(p-1)\<close>, the quantizer returns \<open>LPC_APIRESULT_OK\<close>, all-zero integer
  coefficients and the shift \<open>p\<close>. Otherwise, if every \<open>|c_i|\<close> is below \<open>2^(p-2)\<close>
  (the condition that the source asserts), it returns \<open>LPC_APIRESULT_OK\<close>, a positive
  shift and integer coefficients \<open>q\<close> with \<open>-2^(p-1) <= q <= 2^(p-1) - 1\<close>: the
  range of the saturation, whose lower end has the magnitude \<open>2^(p-1)\<close>.
\<close>

theorem quantize_coefficients_range:
  fixes c :: "real list"
  assumes "length ic = length c" and "1 \<le> p" and "p \<le> 31" and "length c < 2 ^ 30"
  shows "((\<forall>x\<in>set c. \<bar>x\<bar> * 2 ^ (p - 1) \<le> 1) \<longrightarrow>
            LPC_QuantizeCoefficients ndebug (Some (map Fin c)) (length c) p (Some ic) (Some rs)
              = Inr (LPC_APIRESULT_OK, Some (replicate (length c) 0), Some p)) \<and>
         ((\<exists>x\<in>set c. 1 < \<bar>x\<bar> * 2 ^ (p - 1)) \<and> (\<forall>x\<in>set c. \<bar>x\<bar> * 4 < 2 ^ p) \<longrightarrow>
            (\<exists>q sh. LPC_QuantizeCoefficients ndebug (Some (map Fin c)) (length c) p (Some ic) (Some rs)
                       = Inr (LPC_APIRESULT_OK, Some q, Some sh)
                    \<and> 0 < sh \<and> length q = length c
                    \<and> (\<forall>i<length c. - (2 ^ (p - 1)) \<le> sint (q ! i) \<and> sint (q ! i) < 2 ^ (p - 1))))"
  using quantize_small [OF assms] quantize_large [OF assms] by blast

text \<open>
  The theorem at precision 8, on \<open>[1/128, -1/256]\<close> (first case) and on
  \<open>[-509/512, 207/512]\<close> (second case).
\<close>

theorem quantize_coefficients_range_witness:
  "LPC_QuantizeCoefficients False (Some (map Fin [1 / 128, - 1 / 256])) 2 8 (Some [5, 5]) (Some 0)
     = Inr (LPC_APIRESULT_OK, Some [0, 0], Some 8) \<and>
   (\<exists>q sh. LPC_QuantizeCoefficients False (Some (map Fin [- 509 / 512, 207 / 512])) 2 8
               (Some [5, 5]) (Some 0) = Inr (LPC_APIRESULT_OK, Some q, Some sh)
          \<and> 0 < sh \<and> length q = 2
          \<and> (\<forall>i<2. - (2 ^ 7) \<le> sint (q ! i) \<and> sint (q ! i) < 2 ^ 7))"
proof -
  have a: "length [5, 5 :: int32] = length [1 / 128, - 1 / 256 :: real]" by simp
  have b: "length [5, 5 :: int32] = length [- 509 / 512, 207 / 512 :: real]" by simp
  have p: "(1 :: nat) \<le> 8" "(8 :: nat) \<le> 31" by simp_all
  have l: "length [1 / 128, - 1 / 256 :: real] < 2 ^ 30" "length [- 509 / 512, 207 / 512 :: real] < 2 ^ 30"
    by simp_all
  show ?thesis
    using quantize_coefficients_range [OF a p l(1), of False 0]
          quantize_coefficients_range [OF b p l(2), of False 0]
    by (simp add: numeral_2_eq_2)
qed

lemma frexp_exp_eq:
  assumes "2 powr (of_int n - 1) \<le> \<bar>a\<bar>" "\<bar>a\<bar> < 2 powr (of_int n)"
  shows "frexp_exp (Fin a) = Inr n"
proof -
  have pos: "0 < \<bar>a\<bar>" using assms(1) by (smt (verit) powr_gt_zero)
  have "of_int n - 1 \<le> log 2 \<bar>a\<bar>"
    using assms(1) pos by (simp add: le_log_iff)
  moreover have "log 2 \<bar>a\<bar> < of_int n"
    using assms(2) pos by (simp add: log_less_iff)
  ultimately have "\<lfloor>log 2 \<bar>a\<bar>\<rfloor> = n - 1"
    by (simp add: floor_eq_iff)
  then show ?thesis using pos by (simp add: frexp_exp_def)
qed

lemma frexp_exp_half_to_one: "1 / 2 \<le> \<bar>a\<bar> \<Longrightarrow> \<bar>a\<bar> < 1 \<Longrightarrow> frexp_exp (Fin a) = Inr 0"
  using frexp_exp_eq [of 0 a] by (simp add: powr_minus)

lemma frexp_exp_two: "frexp_exp (Fin 2) = Inr 2"
  using frexp_exp_eq [of 2 2] by simp

lemmas quant_ev = LPC_QuantizeCoefficients_def for_loop.simps for_down.simps u32_sub_def
  shl32_def int32_of_u32_def dpow2_def LPC_Round_def int32_of_dbl_def dbl_of_int32_def

text \<open>
  C3 as the spec states it, with every output magnitude strictly below \<open>2^(p-1)\<close>,
  fails: at precision 8 the coefficients \<open>[-509/512, 207/512]\<close> are scaled by \<open>2^7\<close>
  to \<open>-127.25\<close> and \<open>51.75\<close>; the tail is quantized to 52 and leaves the error
  \<open>-0.25\<close>, the head becomes \<open>round(-127.5) = -128\<close>, which the saturation lets
  through, and \<open>|-128| = 2^7\<close>.
\<close>

theorem quantize_reaches_minus_qmax:
  "LPC_QuantizeCoefficients False (Some [Fin (- 509 / 512), Fin (207 / 512)]) 2 8 (Some [0, 0]) (Some 0)
     = Inr (LPC_APIRESULT_OK, Some [- 128, 52], Some 7) \<and>
   \<not> \<bar>sint (- 128 :: int32)\<bar> < 2 ^ (8 - 1)"
  by (simp add: quant_ev dbl_ev mem_ev frexp_exp_half_to_one)

text \<open>
  Outside the bounds of the theorem the call does not return: a precision of 33
  shifts \<open>1\<close> by 32; at precision 32 the coefficient \<open>1 - 2^-33\<close> rounds to \<open>2^31\<close>,
  which no \<open>int32_t\<close> holds; a coefficient of 2 at precision 2 fails the assertion
  (with \<open>NDEBUG\<close> the shift wraps around, \<open>pow\<close> overflows and an infinity is
  converted); a NaN among the coefficients reaches the conversion to \<open>int32_t\<close>.
\<close>

lemma quantize_outside_the_bounds:
  "LPC_QuantizeCoefficients False (Some [Fin (1 / 2)]) 1 33 (Some [0]) (Some 0) = Inl ShiftOutOfRange"
  "LPC_QuantizeCoefficients False (Some [Fin (1 - 1 / 2 ^ 33)]) 1 32 (Some [0]) (Some 0)
     = Inl ConversionOutOfRange"
  "LPC_QuantizeCoefficients False (Some [Fin 2]) 1 2 (Some [0]) (Some 0) = Inl AssertionFailed"
  "LPC_QuantizeCoefficients True (Some [Fin 2]) 1 2 (Some [0]) (Some 0) = Inl ConversionOutOfRange"
  "LPC_QuantizeCoefficients False (Some [Fin (1 / 2), NaN]) 2 8 (Some [0, 0]) (Some 0)
     = Inl ConversionOutOfRange"
  by (simp_all add: quant_ev dbl_ev mem_ev frexp_exp_half_to_one frexp_exp_two)


section \<open>The reflection coefficients of the Levinson-Durbin recursion\<close>

subsection \<open>The autocorrelation matrix of a block is a Gram matrix\<close>

lemma toep_sym: "toep w i j = toep w j i"
  by (simp add: toep_def)

lemma gram_le:
  assumes ij: "i \<le> j" and jK: "j \<le> K"
  shows "(\<Sum>n<length w + K. shifted w i n * shifted w j n) = acorr w (j - i)"
proof -
  define N where "N = length w"
  define d where "d = j - i"
  let ?f = "\<lambda>n. shifted w i n * shifted w j n"
  have sub: "{j..<j + (N - d)} \<subseteq> {..<N + K}" using jK by auto
  have zero: "?f n = 0" if "n \<in> {..<N + K} - {j..<j + (N - d)}" for n
  proof (cases "j \<le> n \<and> n - j < N")
    case True
    then have "\<not> n - i < N" using that ij by (auto simp: d_def)
    then show ?thesis by (simp add: shifted_def N_def)
  next
    case False
    then show ?thesis by (auto simp add: shifted_def N_def)
  qed
  have "(\<Sum>n<N + K. ?f n) = (\<Sum>n\<in>{j..<j + (N - d)}. ?f n)"
    by (rule sum.mono_neutral_right) (use sub zero in auto)
  also have "\<dots> = (\<Sum>m\<in>{0..<N - d}. ?f (m + j))"
    using sum.shift_bounds_nat_ivl [of ?f 0 j "N - d"] by (simp add: add.commute)
  also have "\<dots> = (\<Sum>m\<in>{0..<N - d}. w ! (m + d) * w ! m)"
  proof (rule sum.cong [OF refl])
    fix m assume "m \<in> {0..<N - d}"
    then have m: "m < N - d" by simp
    have e: "m + j - i = m + d" using ij by (simp add: d_def)
    have b: "m + d < length w" "m < length w" "i \<le> m + j" using m ij by (simp_all add: N_def)
    show "?f (m + j) = w ! (m + d) * w ! m"
      using b by (simp add: shifted_def e)
  qed
  finally show ?thesis by (simp add: acorr_def N_def d_def lessThan_atLeast0)
qed

lemma gram:
  assumes "i \<le> K" and "j \<le> K"
  shows "(\<Sum>n<length w + K. shifted w i n * shifted w j n) = toep w i j"
proof (cases "i \<le> j")
  case True
  then show ?thesis using gram_le [OF True assms(2)] by (simp add: toep_def)
next
  case False
  then have ji: "j \<le> i" by simp
  have "(\<Sum>n<length w + K. shifted w i n * shifted w j n)
      = (\<Sum>n<length w + K. shifted w j n * shifted w i n)"
    by (simp add: mult.commute)
  also have "\<dots> = acorr w (i - j)" by (rule gram_le [OF ji assms(1)])
  finally show ?thesis using False by (simp add: toep_def)
qed

lemma quadratic_form:
  "(\<Sum>j<length al. al ! j * normal_eq w al j) = (\<Sum>n<length w + length al. (fwd_err w al n)\<^sup>2)"
proof -
  let ?K = "length al"
  have "(\<Sum>n<length w + ?K. (fwd_err w al n)\<^sup>2)
      = (\<Sum>n<length w + ?K. \<Sum>j<?K. \<Sum>i<?K. (al ! j * al ! i) * (shifted w j n * shifted w i n))"
    by (simp add: fwd_err_def power2_eq_square sum_product mult_ac)
  also have "\<dots> = (\<Sum>j<?K. \<Sum>n<length w + ?K. \<Sum>i<?K. (al ! j * al ! i) * (shifted w j n * shifted w i n))"
    by (rule sum.swap)
  also have "\<dots> = (\<Sum>j<?K. \<Sum>i<?K. \<Sum>n<length w + ?K. (al ! j * al ! i) * (shifted w j n * shifted w i n))"
    by (rule sum.cong [OF refl]) (rule sum.swap)
  also have "\<dots> = (\<Sum>j<?K. \<Sum>i<?K. (al ! j * al ! i) * toep w j i)"
  proof (intro sum.cong refl)
    fix j i assume "j \<in> {..<?K}" "i \<in> {..<?K}"
    then have "j \<le> ?K" "i \<le> ?K" by simp_all
    then show "(\<Sum>n<length w + ?K. (al ! j * al ! i) * (shifted w j n * shifted w i n))
          = (al ! j * al ! i) * toep w j i"
      by (simp add: sum_distrib_left [symmetric] gram)
  qed
  also have "\<dots> = (\<Sum>j<?K. al ! j * normal_eq w al j)"
    by (simp add: normal_eq_def sum_distrib_left mult.assoc)
  finally show ?thesis by simp
qed

lemma acorr_zero: "acorr w 0 = (\<Sum>i<length w. (w ! i)\<^sup>2)"
  by (simp add: acorr_def power2_eq_square)

lemma fwd_err_positive:
  assumes al: "al \<noteq> []" "al ! 0 = 1" and pw: "0 < acorr w 0"
  shows "0 < (\<Sum>n<length w + length al. (fwd_err w al n)\<^sup>2)"
proof -
  have "\<exists>n. n < length w \<and> w ! n \<noteq> 0"
  proof (rule ccontr)
    assume "\<not> ?thesis"
    then have "acorr w 0 = 0" by (simp add: acorr_zero)
    then show False using pw by simp
  qed
  then obtain n0 where n0: "n0 < length w \<and> w ! n0 \<noteq> 0"
    and least: "\<And>m. m < n0 \<Longrightarrow> \<not> (m < length w \<and> w ! m \<noteq> 0)"
    using exists_least_iff [of "\<lambda>n. n < length w \<and> w ! n \<noteq> 0"] by blast
  have K: "0 < length al" using al(1) by simp
  have "fwd_err w al n0 = (\<Sum>i\<in>{0}. al ! i * shifted w i n0)"
    unfolding fwd_err_def
  proof (rule sum.mono_neutral_right)
    show "\<forall>i\<in>{..<length al} - {0}. al ! i * shifted w i n0 = 0"
    proof
      fix i assume "i \<in> {..<length al} - {0}"
      then have i: "0 < i" by simp
      show "al ! i * shifted w i n0 = 0"
      proof (cases "i \<le> n0")
        case True
        then have "n0 - i < n0" using i by simp
        then have "w ! (n0 - i) = 0" using least [of "n0 - i"] n0 by auto
        then show ?thesis by (simp add: shifted_def)
      next
        case False
        then show ?thesis by (simp add: shifted_def)
      qed
    qed
  qed (use K in auto)
  then have f0: "fwd_err w al n0 = w ! n0" using al(2) n0 by (simp add: shifted_def)
  have "0 < (fwd_err w al n0)\<^sup>2" using f0 n0 by simp
  also have "\<dots> \<le> (\<Sum>n<length w + length al. (fwd_err w al n)\<^sup>2)"
    by (rule member_le_sum) (use n0 in auto)
  finally show ?thesis .
qed

lemma length_ld_next [simp]: "length (ld_next al g) = length al + 1"
  by (simp add: ld_next_def)

lemma ld_next_nth:
  "i \<le> length al \<Longrightarrow> ld_next al g ! i = (al @ [0]) ! i + g * (al @ [0]) ! (length al - i)"
  unfolding ld_next_def by (subst nth_map) (simp_all del: upt_Suc)

lemma toep_reflect:
  assumes "j \<le> K" and "m \<le> K"
  shows "toep w j (K - m) = toep w (K - j) m"
proof -
  have "(if j \<le> K - m then K - m - j else j - (K - m)) = (if K - j \<le> m then m - (K - j) else K - j - m)"
    using assms by auto
  then show ?thesis by (simp add: toep_def)
qed

lemma sum_append_zero:
  "(\<Sum>i<length al + 1. (al @ [0::real]) ! i * f i) = (\<Sum>i<length al. al ! i * f i)"
  by (simp add: nth_append)

lemma ld_next_normal_eq:
  assumes j: "j \<le> length al"
  shows "normal_eq w (ld_next al g) j = normal_eq w al j + g * normal_eq w al (length al - j)"
proof -
  let ?K = "length al"
  let ?z = "al @ [0]"
  have "normal_eq w (ld_next al g) j
      = (\<Sum>i<?K + 1. (?z ! i + g * ?z ! (?K - i)) * toep w j i)"
    unfolding normal_eq_def length_ld_next
    by (rule sum.cong [OF refl]) (simp add: ld_next_nth)
  also have "\<dots> = (\<Sum>i<?K + 1. ?z ! i * toep w j i) + g * (\<Sum>i<?K + 1. ?z ! (?K - i) * toep w j i)"
    by (simp add: algebra_simps sum.distrib sum_distrib_left)
  also have "(\<Sum>i<?K + 1. ?z ! i * toep w j i) = normal_eq w al j"
    unfolding normal_eq_def by (rule sum_append_zero)
  also have "(\<Sum>i<?K + 1. ?z ! (?K - i) * toep w j i)
      = (\<Sum>i<?K + 1. ?z ! (?K + 1 - Suc i) * toep w j (?K - (?K + 1 - Suc i)))"
    by (rule sum.cong [OF refl]) simp
  also have "\<dots> = (\<Sum>i<?K + 1. ?z ! i * toep w j (?K - i))"
    by (rule sum.nat_diff_reindex [where g = "\<lambda>m. ?z ! m * toep w j (?K - m)"])
  also have "\<dots> = (\<Sum>i<?K + 1. ?z ! i * toep w (?K - j) i)"
    by (rule sum.cong [OF refl]) (simp add: toep_reflect [OF j])
  also have "\<dots> = normal_eq w al (?K - j)"
    unfolding normal_eq_def by (rule sum_append_zero)
  finally show ?thesis .
qed

lemma ld_inv_energy:
  assumes inv: "ld_inv w al e"
  shows "e = (\<Sum>n<length w + length al. (fwd_err w al n)\<^sup>2)"
proof -
  have K: "0 < length al" and a0: "al ! 0 = 1" and e: "normal_eq w al 0 = e"
    and z: "\<And>j. 1 \<le> j \<Longrightarrow> j < length al \<Longrightarrow> normal_eq w al j = 0"
    using inv by (simp_all add: ld_inv_def)
  have "(\<Sum>j<length al. al ! j * normal_eq w al j) = (\<Sum>j\<in>{0}. al ! j * normal_eq w al j)"
    by (rule sum.mono_neutral_right) (use K z in auto)
  then have "(\<Sum>j<length al. al ! j * normal_eq w al j) = e"
    using a0 e by simp
  then show ?thesis by (simp add: quadratic_form)
qed

lemma ld_inv_positive:
  assumes "ld_inv w al e" and "0 < acorr w 0"
  shows "0 < e"
  using fwd_err_positive [of al w] assms ld_inv_energy [OF assms(1)]
  by (simp add: ld_inv_def)

lemma ld_inv_base:
  assumes "acorr w 0 \<noteq> 0"
  shows "ld_inv w [1, - acorr w 1 / acorr w 0] (acorr w 0 + acorr w 1 * (- acorr w 1 / acorr w 0))"
  using assms
  by (simp add: ld_inv_def normal_eq_def toep_def lessThan_Suc numeral_2_eq_2 less_Suc_eq)

lemma ld_inv_step:
  assumes inv: "ld_inv w al e" and e: "e \<noteq> 0"
    and g: "g = normal_eq w al (length al) / (- e)"
  shows "ld_inv w (ld_next al g) (e * (1 - g * g))"
proof -
  let ?K = "length al"
  have K: "0 < ?K" and a0: "al ! 0 = 1" and e0: "normal_eq w al 0 = e"
    and z: "\<And>j. 1 \<le> j \<Longrightarrow> j < ?K \<Longrightarrow> normal_eq w al j = 0"
    using inv by (simp_all add: ld_inv_def)
  have top: "normal_eq w al ?K = - g * e" using g e by simp
  have ne: "ld_next al g \<noteq> []"
    using length_ld_next [of al g] by (cases "ld_next al g") simp_all
  have first: "ld_next al g ! 0 = 1"
    using K a0 by (simp add: ld_next_nth nth_append)
  have en: "normal_eq w (ld_next al g) 0 = e * (1 - g * g)"
    using ld_next_normal_eq [of 0 al w g] e0 top by (simp add: algebra_simps)
  have zero: "normal_eq w (ld_next al g) j = 0" if "1 \<le> j" "j < ?K + 1" for j
  proof (cases "j = ?K")
    case True
    then show ?thesis
      using ld_next_normal_eq [of j al w g] e0 top by simp
  next
    case False
    then have "j < ?K" "1 \<le> ?K - j" "?K - j < ?K" using that by simp_all
    then show ?thesis
      using ld_next_normal_eq [of j al w g] z [of j] z [of "?K - j"] that by simp
  qed
  show ?thesis
    unfolding ld_inv_def using ne first en zero by simp
qed

lemma ld_gamma_bound:
  assumes inv: "ld_inv w al e" and pw: "0 < acorr w 0"
    and g: "g = normal_eq w al (length al) / (- e)"
  shows "\<bar>g\<bar> < 1" and "0 < e * (1 - g * g)"
proof -
  have e: "0 < e" by (rule ld_inv_positive [OF inv pw])
  have "ld_inv w (ld_next al g) (e * (1 - g * g))"
    by (rule ld_inv_step [OF inv _ g]) (use e in simp)
  then show pos: "0 < e * (1 - g * g)" by (rule ld_inv_positive [OF _ pw])
  then have "0 < 1 - g * g" using e by (simp add: zero_less_mult_iff)
  then have "g\<^sup>2 < 1\<^sup>2" by (simp add: power2_eq_square)
  then show "\<bar>g\<bar> < 1" by (simp add: abs_square_less_1)
qed

lemma ld_first_parcor_bound:
  assumes pw: "0 < acorr w 0"
  shows "\<bar>acorr w 1 / acorr w 0\<bar> < 1"
proof -
  let ?p = "acorr w 1 / acorr w 0"
  have "ld_inv w [1, - acorr w 1 / acorr w 0] (acorr w 0 + acorr w 1 * (- acorr w 1 / acorr w 0))"
    by (rule ld_inv_base) (use pw in simp)
  then have "0 < acorr w 0 + acorr w 1 * (- acorr w 1 / acorr w 0)"
    by (rule ld_inv_positive [OF _ pw])
  also have "acorr w 0 + acorr w 1 * (- acorr w 1 / acorr w 0) = acorr w 0 * (1 - ?p * ?p)"
    using pw by (simp add: field_simps)
  finally have "0 < 1 - ?p * ?p" using pw by (simp add: zero_less_mult_iff)
  then have "?p\<^sup>2 < 1" by (simp add: power2_eq_square)
  then show ?thesis by (simp add: abs_square_less_1)
qed

subsection \<open>One step of the recursion in the code\<close>

lemma wr_Inr: "i < length xs \<Longrightarrow> wr xs i v = Inr (xs[i := v])"
  by (simp add: wr_def)

lemma gamma_loop:
  assumes a: "\<And>i. i < n \<Longrightarrow> i < length a \<and> a ! i = Fin (al i)"
    and r: "\<And>i. i < n \<Longrightarrow> n - i < length ac \<and> ac ! (n - i) = Fin (rho (n - i))"
  shows "for_loop 0 n (\<lambda>i gamma. bnd (rd a i) (\<lambda>ai. bnd (rd ac (n - i)) (\<lambda>r. Inr (gamma + ai * r)))) 0
           = Inr (Fin (\<Sum>i<n. al i * rho (n - i)))"
proof -
  let ?body = "\<lambda>i gamma. bnd (rd a i) (\<lambda>ai. bnd (rd ac (n - i)) (\<lambda>r. Inr (gamma + ai * r)))"
  have "\<exists>t. for_loop 0 n ?body 0 = Inr t \<and> t = Fin (\<Sum>i<n. al i * rho (n - i))"
  proof (rule for_loop_inv [where I = "\<lambda>j t. t = Fin (\<Sum>i<j. al i * rho (n - i))"])
    show "(0 :: dbl) = Fin (\<Sum>i<0. al i * rho (n - i))" by (simp add: zero_dbl_def)
    show "0 \<le> n" by simp
    show "\<exists>t'. ?body j t = Inr t' \<and> t' = Fin (\<Sum>i<Suc j. al i * rho (n - i))"
      if "j < n" "t = Fin (\<Sum>i<j. al i * rho (n - i))" for j t
      using a [OF that(1)] r [OF that(1)] that(2) by simp
  qed
  then show ?thesis by simp
qed

lemma uv_loop:
  fixes a u v :: "dbl list"
  assumes len: "k < length a" "k < length u" "k < length v"
  shows "\<exists>u3 v3. for_loop 0 k
            (\<lambda>i (u, v).
               bnd (rd a (i + 1)) (\<lambda>ai1.
               bnd (wr v (k - i) ai1) (\<lambda>v'.
               bnd (wr u (i + 1) ai1) (\<lambda>u'.
               Inr (u', v')))))
            (u, v) = Inr (u3, v3)
         \<and> length u3 = length u \<and> length v3 = length v
         \<and> (\<forall>m. 1 \<le> m \<and> m \<le> k \<longrightarrow> u3 ! m = a ! m \<and> v3 ! m = a ! (k + 1 - m))"
proof -
  let ?body = "\<lambda>i (u, v).
               bnd (rd a (i + 1)) (\<lambda>ai1.
               bnd (wr v (k - i) ai1) (\<lambda>v'.
               bnd (wr u (i + 1) ai1) (\<lambda>u'.
               Inr (u', v'))))"
  define I where "I j t \<longleftrightarrow> length (fst t) = length u \<and> length (snd t) = length v
      \<and> (\<forall>m. 1 \<le> m \<and> m \<le> j \<longrightarrow> fst t ! m = a ! m)
      \<and> (\<forall>m. k - j < m \<and> m \<le> k \<longrightarrow> snd t ! m = a ! (k + 1 - m))" for j and t :: "dbl list \<times> dbl list"
  have "\<exists>t. for_loop 0 k ?body (u, v) = Inr t \<and> I k t"
  proof (rule for_loop_inv)
    show "I 0 (u, v)" by (auto simp: I_def)
    show "0 \<le> k" by simp
    show "\<exists>t'. ?body j t = Inr t' \<and> I (Suc j) t'" if "0 \<le> j" "j < k" "I j t" for j t
    proof -
      obtain u' v' where t: "t = (u', v')" by (cases t)
      have lu: "length u' = length u" and lv: "length v' = length v"
        and iu: "\<And>m. 1 \<le> m \<Longrightarrow> m \<le> j \<Longrightarrow> u' ! m = a ! m"
        and iv: "\<And>m. k - j < m \<Longrightarrow> m \<le> k \<Longrightarrow> v' ! m = a ! (k + 1 - m)"
        using that(3) by (simp_all add: I_def t)
      have b: "j + 1 < length a" "k - j < length v'" "j + 1 < length u'"
        using that(2) len lu lv by simp_all
      have run: "?body j t = Inr (u'[j + 1 := a ! (j + 1)], v'[k - j := a ! (j + 1)])"
        using b by (simp add: t wr_Inr)
      have "I (Suc j) (u'[j + 1 := a ! (j + 1)], v'[k - j := a ! (j + 1)])"
        unfolding I_def
      proof (intro conjI allI impI)
        fix m assume m: "1 \<le> m \<and> m \<le> Suc j"
        show "fst (u'[j + 1 := a ! (j + 1)], v'[k - j := a ! (j + 1)]) ! m = a ! m"
          using m iu [of m] b by (cases "m = j + 1") (simp_all add: nth_list_update)
      next
        fix m assume m: "k - Suc j < m \<and> m \<le> k"
        show "snd (u'[j + 1 := a ! (j + 1)], v'[k - j := a ! (j + 1)]) ! m = a ! (k + 1 - m)"
        proof (cases "m = k - j")
          case True
          then have "k + 1 - m = j + 1" using that(2) by simp
          then show ?thesis using True b by simp
        next
          case False
          then have "k - j < m" using m that(2) by arith
          then show ?thesis using False m iv [of m] by (simp add: nth_list_update)
        qed
      qed (simp_all add: lu lv)
      then show ?thesis using run by blast
    qed
  qed
  then obtain t where t: "for_loop 0 k ?body (u, v) = Inr t" "I k t" by blast
  obtain u3 v3 where uv: "t = (u3, v3)" by (cases t)
  show ?thesis using t by (simp add: uv I_def)
qed

lemma a_update_loop:
  fixes a u v :: "dbl list" and g :: dbl
  assumes len: "n \<le> length a" "n \<le> length u" "n \<le> length v"
  shows "\<exists>a'. for_loop 0 n
            (\<lambda>i a. bnd (rd u i) (\<lambda>ui. bnd (rd v i) (\<lambda>vi. wr a i (ui + g * vi)))) a = Inr a'
         \<and> length a' = length a \<and> (\<forall>i<n. a' ! i = u ! i + g * v ! i)"
proof -
  let ?body = "\<lambda>i a. bnd (rd u i) (\<lambda>ui. bnd (rd v i) (\<lambda>vi. wr a i (ui + g * vi)))"
  define I where "I j t \<longleftrightarrow> length t = length a \<and> (\<forall>i<j. t ! i = u ! i + g * v ! i)"
    for j and t :: "dbl list"
  have "\<exists>t. for_loop 0 n ?body a = Inr t \<and> I n t"
  proof (rule for_loop_inv)
    show "I 0 a" by (simp add: I_def)
    show "0 \<le> n" by simp
    show "\<exists>t'. ?body j t = Inr t' \<and> I (Suc j) t'" if "0 \<le> j" "j < n" "I j t" for j t
    proof -
      have lt: "length t = length a" and it: "\<And>i. i < j \<Longrightarrow> t ! i = u ! i + g * v ! i"
        using that(3) by (simp_all add: I_def)
      have b: "j < length u" "j < length v" "j < length t" using that(2) len lt by simp_all
      have run: "?body j t = Inr (t[j := u ! j + g * v ! j])" using b by (simp add: wr_Inr)
      have "I (Suc j) (t[j := u ! j + g * v ! j])"
        unfolding I_def using lt it b by (auto simp: nth_list_update less_Suc_eq)
      then show ?thesis using run by blast
    qed
  qed
  then show ?thesis by (auto simp: I_def)
qed

lemma normal_eq_top:
  "normal_eq w al (length al) = (\<Sum>i<length al. al ! i * acorr w (length al - i))"
  unfolding normal_eq_def by (rule sum.cong [OF refl]) (simp add: toep_def)

lemma ld_body_step:
  assumes inv: "ld_inv w al e" and pw: "0 < acorr w 0"
    and len: "length al = k + 1" "k + 2 \<le> length a" "k + 2 \<le> length u" "k + 2 \<le> length v"
      "k + 1 < length parcor"
    and ac: "\<And>j. j \<le> k + 1 \<Longrightarrow> j < length auto_corr \<and> auto_corr ! j = Fin (acorr w j)"
    and a: "\<And>i. i \<le> k \<Longrightarrow> a ! i = Fin (al ! i)"
  shows "\<exists>a' u' v' g.
           ld_body ndebug auto_corr k (a, u, v, parcor, Fin e)
             = Inr (a', u', v', parcor[k + 1 := Fin (- g)], Fin (e * (1 - g * g)))
         \<and> length a' = length a \<and> length u' = length u \<and> length v' = length v
         \<and> (\<forall>i\<le>k + 1. a' ! i = Fin (ld_next al g ! i))
         \<and> ld_inv w (ld_next al g) (e * (1 - g * g)) \<and> \<bar>g\<bar> < 1"
proof -
  define s where "s = normal_eq w al (length al)"
  define g where "g = s / (- e)"
  have e: "0 < e" by (rule ld_inv_positive [OF inv pw])
  have gb: "\<bar>g\<bar> < 1" and e': "0 < e * (1 - g * g)"
    using ld_gamma_bound [OF inv pw, of g] by (simp_all add: g_def s_def)
  have inv': "ld_inv w (ld_next al g) (e * (1 - g * g))"
    by (rule ld_inv_step [OF inv]) (use e in \<open>simp_all add: g_def s_def\<close>)
  have a0: "al ! 0 = 1" using inv by (simp add: ld_inv_def)
  have gl: "for_loop 0 (k + 1)
              (\<lambda>i gamma. bnd (rd a i) (\<lambda>ai. bnd (rd auto_corr (k + 1 - i)) (\<lambda>r. Inr (gamma + ai * r)))) 0
            = Inr (Fin s)"
  proof -
    have "for_loop 0 (k + 1)
              (\<lambda>i gamma. bnd (rd a i) (\<lambda>ai. bnd (rd auto_corr (k + 1 - i)) (\<lambda>r. Inr (gamma + ai * r)))) 0
            = Inr (Fin (\<Sum>i<k + 1. (al ! i) * acorr w (k + 1 - i)))"
      by (rule gamma_loop) (use a ac len in auto)
    moreover have "s = (\<Sum>i<k + 1. (al ! i) * acorr w (k + 1 - i))"
      using normal_eq_top [of w al] by (simp only: s_def len(1))
    ultimately show ?thesis by (simp only:)
  qed
  from uv_loop [of k a u v] len
  obtain u3 v3 where uv: "for_loop 0 k
            (\<lambda>i (u, v).
               bnd (rd a (i + 1)) (\<lambda>ai1.
               bnd (wr v (k - i) ai1) (\<lambda>v'.
               bnd (wr u (i + 1) ai1) (\<lambda>u'.
               Inr (u', v')))))
            (u, v) = Inr (u3, v3)"
    and lu3: "length u3 = length u" and lv3: "length v3 = length v"
    and u3: "\<And>m. 1 \<le> m \<Longrightarrow> m \<le> k \<Longrightarrow> u3 ! m = a ! m"
    and v3: "\<And>m. 1 \<le> m \<Longrightarrow> m \<le> k \<Longrightarrow> v3 ! m = a ! (k + 1 - m)"
    by auto
  define u5 where "u5 = u3[0 := 1, k + 1 := 0]"
  define v5 where "v5 = v3[0 := 0, k + 1 := 1]"
  have lu5: "length u5 = length u" and lv5: "length v5 = length v"
    by (simp_all add: u5_def v5_def lu3 lv3)
  from a_update_loop [of "k + 2" a u5 v5 "Fin g"] len lu5 lv5
  obtain a' where al: "for_loop 0 (k + 2)
            (\<lambda>i a. bnd (rd u5 i) (\<lambda>ui. bnd (rd v5 i) (\<lambda>vi. wr a i (ui + Fin g * vi)))) a = Inr a'"
    and la': "length a' = length a"
    and a': "\<And>i. i < k + 2 \<Longrightarrow> a' ! i = u5 ! i + Fin g * v5 ! i"
    by auto
  have b: "0 < length u3" "k + 1 < length (u3[0 := 1])" "0 < length v3" "k + 1 < length (v3[0 := 0])"
    using len lu3 lv3 by auto
  have b': "k + 1 < length u3" "k + 1 < length v3" using len lu3 lv3 by simp_all
  have val: "a' ! i = Fin (ld_next al g ! i)" if ik: "i \<le> k + 1" for i
  proof -
    have il: "i \<le> length al" using ik len(1) by simp
    consider "i = 0" | "1 \<le> i" "i \<le> k" | "i = k + 1"
      using ik by atomize_elim arith
    then show ?thesis
    proof cases
      case 1
      have "u5 ! 0 = 1" "v5 ! 0 = 0" using b by (simp_all add: u5_def v5_def)
      then show ?thesis
        using a' [of 0] 1 a0 len(1) by (simp add: ld_next_nth nth_append one_dbl_def zero_dbl_def)
    next
      case 2
      have "u5 ! i = Fin (al ! i)" "v5 ! i = Fin (al ! (k + 1 - i))"
        using 2 u3 [of i] v3 [of i] a [of i] a [of "k + 1 - i"] by (simp_all add: u5_def v5_def)
      then show ?thesis
        using a' [of i] 2 len(1) by (simp add: ld_next_nth [OF il] nth_append)
    next
      case 3
      have "u5 ! (k + 1) = 0" "v5 ! (k + 1) = 1" using b' by (simp_all add: u5_def v5_def)
      then show ?thesis
        using a' [of "k + 1"] 3 a0 len(1) by (simp add: ld_next_nth nth_append one_dbl_def zero_dbl_def)
    qed
  qed
  have gam: "Fin s / (- Fin e) = Fin g" using e by (simp add: g_def)
  have ek: "Fin e * (1 - Fin g * Fin g) = Fin (e * (1 - g * g))"
    by (simp add: one_dbl_def minus_dbl_def)
  have as1: "dge (Fin (e * (1 - g * g))) 0" using e' by (simp add: dge_def zero_dbl_def)
  have as2: "dlt (dfabs (Fin g)) 1" using gb by (simp add: one_dbl_def)
  have w1: "wr u3 0 1 = Inr (u3[0 := 1])" and w2: "wr (u3[0 := 1]) (k + 1) 0 = Inr u5"
    and w3: "wr v3 0 0 = Inr (v3[0 := 0])" and w4: "wr (v3[0 := 0]) (k + 1) 1 = Inr v5"
    and w5: "wr parcor (k + 1) (- Fin g) = Inr (parcor[k + 1 := Fin (- g)])"
    using b len(5) by (simp_all add: wr_Inr u5_def v5_def)
  have c1: "c_assert ndebug (dge (Fin (e * (1 - g * g))) 0) = Inr ()"
    and c2: "c_assert ndebug (dlt (dfabs (Fin g)) 1) = Inr ()"
    using as1 as2 by (simp_all add: c_assert_def)
  have "ld_body ndebug auto_corr k (a, u, v, parcor, Fin e)
          = Inr (a', u5, v5, parcor[k + 1 := Fin (- g)], Fin (e * (1 - g * g)))"
    unfolding ld_body_def
    by (simp only: prod.case Let_def gl gam ek c1 uv w1 w2 w3 w4 al w5 c2 bnd_Inr)
  then show ?thesis using la' lu5 lv5 val inv' gb by blast
qed

subsection \<open>LPC_LevinsonDurbinRecursion on an autocorrelation\<close>

lemma ld_init_loop:
  fixes a u v :: "dbl list"
  assumes len: "n \<le> length a" "n \<le> length u" "n \<le> length v"
  shows "\<exists>a0 u0 v0. for_loop 0 n
            (\<lambda>i (a, u, v).
               bnd (wr v i 0) (\<lambda>v'.
               bnd (wr u i 0) (\<lambda>u'.
               bnd (wr a i 0) (\<lambda>a'.
               Inr (a', u', v')))))
            (a, u, v) = Inr (a0, u0, v0)
         \<and> length a0 = length a \<and> length u0 = length u \<and> length v0 = length v"
proof -
  let ?body = "\<lambda>i (a, u, v).
               bnd (wr v i 0) (\<lambda>v'.
               bnd (wr u i 0) (\<lambda>u'.
               bnd (wr a i 0) (\<lambda>a'.
               Inr (a', u', v'))))"
  define I where "I j t \<longleftrightarrow> length (fst t) = length a \<and> length (fst (snd t)) = length u
      \<and> length (snd (snd t)) = length v" for j :: nat and t :: "dbl list \<times> dbl list \<times> dbl list"
  have "\<exists>t. for_loop 0 n ?body (a, u, v) = Inr t \<and> I n t"
  proof (rule for_loop_inv)
    show "I 0 (a, u, v)" by (simp add: I_def)
    show "0 \<le> n" by simp
    show "\<exists>t'. ?body j t = Inr t' \<and> I (Suc j) t'" if "0 \<le> j" "j < n" "I j t" for j t
    proof -
      obtain a' u' v' where t: "t = (a', u', v')" by (cases t rule: prod_cases3)
      have "j < length a'" "j < length u'" "j < length v'"
        using that(2,3) len by (simp_all add: I_def t)
      then show ?thesis using that(3) by (simp add: t wr_Inr I_def)
    qed
  qed
  then obtain t where t: "for_loop 0 n ?body (a, u, v) = Inr t" "I n t" by blast
  obtain a0 u0 v0 where "t = (a0, u0, v0)" by (cases t rule: prod_cases3)
  then show ?thesis using t by (simp add: I_def)
qed

lemma ld_main_loop:
  assumes pw: "0 < acorr w 0" and ord: "1 \<le> coef_order"
    and len: "coef_order + 2 \<le> length a" "coef_order + 2 \<le> length u" "coef_order + 2 \<le> length v"
      "coef_order + 1 \<le> length parcor"
    and ac: "\<And>j. j \<le> coef_order \<Longrightarrow> j < length auto_corr \<and> auto_corr ! j = Fin (acorr w j)"
    and a01: "a ! 0 = Fin 1" "a ! 1 = Fin (- acorr w 1 / acorr w 0)"
    and p1: "parcor ! 1 = Fin (acorr w 1 / acorr w 0)"
  shows "\<exists>a' u' v' parcor' ek'.
           for_loop 1 coef_order (ld_body ndebug auto_corr)
             (a, u, v, parcor, Fin (acorr w 0 + acorr w 1 * (- acorr w 1 / acorr w 0)))
             = Inr (a', u', v', parcor', ek')
         \<and> length a' = length a \<and> length u' = length u \<and> length v' = length v
         \<and> length parcor' = length parcor
         \<and> (\<forall>k. 1 \<le> k \<and> k \<le> coef_order \<longrightarrow> (\<exists>p. parcor' ! k = Fin p \<and> \<bar>p\<bar> < 1))"
proof -
  define I where "I k t \<longleftrightarrow> (case t of (a', u', v', p', ek') \<Rightarrow>
      length a' = length a \<and> length u' = length u \<and> length v' = length v
      \<and> length p' = length parcor
      \<and> (\<exists>al e. ld_inv w al e \<and> length al = k + 1 \<and> ek' = Fin e \<and> (\<forall>i\<le>k. a' ! i = Fin (al ! i)))
      \<and> (\<forall>j. 1 \<le> j \<and> j \<le> k \<longrightarrow> (\<exists>p. p' ! j = Fin p \<and> \<bar>p\<bar> < 1)))"
    for k and t :: "dbl list \<times> dbl list \<times> dbl list \<times> dbl list \<times> dbl"
  let ?e1 = "acorr w 0 + acorr w 1 * (- acorr w 1 / acorr w 0)"
  have "\<exists>t. for_loop 1 coef_order (ld_body ndebug auto_corr) (a, u, v, parcor, Fin ?e1) = Inr t
          \<and> I coef_order t"
  proof (rule for_loop_inv)
    show "1 \<le> coef_order" by (rule ord)
    show "I 1 (a, u, v, parcor, Fin ?e1)"
    proof -
      have "ld_inv w [1, - acorr w 1 / acorr w 0] ?e1"
        by (rule ld_inv_base) (use pw in simp)
      moreover have "\<forall>i\<le>1. a ! i = Fin ([1, - acorr w 1 / acorr w 0] ! i)"
        using a01 by (auto simp: le_Suc_eq)
      ultimately have "\<exists>al e. ld_inv w al e \<and> length al = 1 + 1 \<and> Fin ?e1 = Fin e
            \<and> (\<forall>i\<le>1. a ! i = Fin (al ! i))"
        by (intro exI [of _ "[1, - acorr w 1 / acorr w 0]"] exI [of _ ?e1]) simp
      moreover have "\<forall>j. 1 \<le> j \<and> j \<le> 1 \<longrightarrow> (\<exists>p. parcor ! j = Fin p \<and> \<bar>p\<bar> < 1)"
        using p1 ld_first_parcor_bound [OF pw] by (auto simp: le_antisym)
      ultimately show ?thesis unfolding I_def by simp
    qed
    show "\<exists>t'. ld_body ndebug auto_corr k t = Inr t' \<and> I (Suc k) t'"
      if k1: "1 \<le> k" and kn: "k < coef_order" and ik: "I k t" for k t
    proof -
      obtain a' u' v' p' ek' where t: "t = (a', u', v', p', ek')" by (cases t rule: prod_cases5)
      from ik obtain al e where la: "length a' = length a" and lu: "length u' = length u"
        and lv: "length v' = length v" and lp: "length p' = length parcor"
        and inv: "ld_inv w al e" and lal: "length al = k + 1" and ek: "ek' = Fin e"
        and av: "\<And>i. i \<le> k \<Longrightarrow> a' ! i = Fin (al ! i)"
        and pv: "\<And>j. 1 \<le> j \<Longrightarrow> j \<le> k \<Longrightarrow> \<exists>p. p' ! j = Fin p \<and> \<bar>p\<bar> < 1"
        unfolding I_def t by auto
      have b: "k + 2 \<le> length a'" "k + 2 \<le> length u'" "k + 2 \<le> length v'" "k + 1 < length p'"
        using kn len la lu lv lp by simp_all
      have ac': "j < length auto_corr \<and> auto_corr ! j = Fin (acorr w j)" if "j \<le> k + 1" for j
        using ac [of j] that kn by simp
      from ld_body_step [OF inv pw lal b ac' av, of ndebug]
      obtain a'' u'' v'' g where run: "ld_body ndebug auto_corr k (a', u', v', p', Fin e)
             = Inr (a'', u'', v'', p'[k + 1 := Fin (- g)], Fin (e * (1 - g * g)))"
        and l2: "length a'' = length a'" "length u'' = length u'" "length v'' = length v'"
        and av2: "\<And>i. i \<le> k + 1 \<Longrightarrow> a'' ! i = Fin (ld_next al g ! i)"
        and inv2: "ld_inv w (ld_next al g) (e * (1 - g * g))" and gb: "\<bar>g\<bar> < 1"
        by blast
      have pv2: "\<exists>p. p'[k + 1 := Fin (- g)] ! j = Fin p \<and> \<bar>p\<bar> < 1" if "1 \<le> j" "j \<le> Suc k" for j
      proof (cases "j = k + 1")
        case True
        then show ?thesis using b(4) gb by simp
      next
        case False
        then show ?thesis using pv [of j] that by simp
      qed
      have ex: "\<exists>al' e'. ld_inv w al' e' \<and> length al' = Suc k + 1 \<and> Fin (e * (1 - g * g)) = Fin e'
            \<and> (\<forall>i\<le>Suc k. a'' ! i = Fin (al' ! i))"
        by (intro exI [of _ "ld_next al g"] exI [of _ "e * (1 - g * g)"])
           (use inv2 lal av2 in simp)
      have "I (Suc k) (a'', u'', v'', p'[k + 1 := Fin (- g)], Fin (e * (1 - g * g)))"
        unfolding I_def prod.case using l2 la lu lv lp ex pv2 by simp
      then show ?thesis using run by (simp add: t ek)
    qed
  qed
  then obtain t where t: "for_loop 1 coef_order (ld_body ndebug auto_corr) (a, u, v, parcor, Fin ?e1) = Inr t"
    "I coef_order t" by blast
  obtain a' u' v' p' ek' where "t = (a', u', v', p', ek')" by (cases t rule: prod_cases5)
  then show ?thesis using t unfolding I_def by auto
qed

lemma acorr_zero_nonneg: "0 \<le> acorr w 0"
  by (simp add: acorr_zero sum_nonneg)

lemma levinson_recursion:
  assumes guard: "\<not> dlt (dfabs (lpcc_auto_corr lpcc ! 0)) FLT_EPSILON"
    and len: "coef_order + 2 \<le> length (lpcc_a_vec lpcc)" "coef_order + 2 \<le> length (lpcc_u_vec lpcc)"
      "coef_order + 2 \<le> length (lpcc_v_vec lpcc)"
      "coef_order + 1 \<le> length (lpcc_parcor_coef lpcc)" "2 \<le> length (lpcc_parcor_coef lpcc)"
      "coef_order + 1 \<le> length (lpcc_lpc_coef lpcc)"
      "coef_order + 1 \<le> length (lpcc_auto_corr lpcc)" "2 \<le> length (lpcc_auto_corr lpcc)"
    and ac: "\<And>j. j \<le> coef_order \<Longrightarrow> lpcc_auto_corr lpcc ! j = Fin (acorr w j)"
  shows "\<exists>lpcc'. LPC_LevinsonDurbinRecursion ndebug lpcc coef_order = Inr (LPC_ERROR_OK, lpcc')
         \<and> (\<forall>k. 1 \<le> k \<and> k \<le> coef_order \<longrightarrow> (\<exists>p. lpcc_parcor_coef lpcc' ! k = Fin p \<and> \<bar>p\<bar> < 1))"
proof -
  define auto_corr where "auto_corr = lpcc_auto_corr lpcc"
  define r0 where "r0 = acorr w 0"
  define r1 where "r1 = auto_corr ! 1"
  have ac0: "auto_corr ! 0 = Fin r0" using ac [of 0] by (simp add: auto_corr_def r0_def)
  have pw: "0 < acorr w 0"
    using guard acorr_zero_nonneg [of w] ac0
    by (simp add: auto_corr_def r0_def FLT_EPSILON_def not_less)
  have rd0: "rd auto_corr 0 = Inr (Fin r0)" and rd1: "rd auto_corr 1 = Inr r1"
    using len(8) ac0 by (auto simp: auto_corr_def r1_def rd_def)
  have ng: "dlt (dfabs (Fin r0)) FLT_EPSILON = False" using guard ac0 by (simp add: auto_corr_def)
  from ld_init_loop [OF len(1,2,3)]
  obtain a0 u0 v0 where init: "for_loop 0 (coef_order + 2)
            (\<lambda>i (a, u, v).
               bnd (wr v i 0) (\<lambda>v'.
               bnd (wr u i 0) (\<lambda>u'.
               bnd (wr a i 0) (\<lambda>a'.
               Inr (a', u', v')))))
            (lpcc_a_vec lpcc, lpcc_u_vec lpcc, lpcc_v_vec lpcc) = Inr (a0, u0, v0)"
    and l0: "length a0 = length (lpcc_a_vec lpcc)" "length u0 = length (lpcc_u_vec lpcc)"
      "length v0 = length (lpcc_v_vec lpcc)"
    by blast
  define a2 where "a2 = a0[0 := 1, 1 := - r1 / Fin r0]"
  define p1 where "p1 = (lpcc_parcor_coef lpcc)[0 := 0, 1 := r1 / Fin r0]"
  define u2 where "u2 = u0[0 := 1, 1 := 0]"
  define v2 where "v2 = v0[0 := 0, 1 := 1]"
  have b2: "0 < length a0" "1 < length (a0[0 := 1])" "0 < length u0" "1 < length (u0[0 := 1])"
    "0 < length v0" "1 < length (v0[0 := 0])" "0 < length (lpcc_parcor_coef lpcc)"
    "1 < length ((lpcc_parcor_coef lpcc)[0 := 0])" "1 < length a2"
    using len l0 by (auto simp: a2_def)
  have w: "wr a0 0 1 = Inr (a0[0 := 1])" "wr (a0[0 := 1]) 1 (- r1 / Fin r0) = Inr a2"
    "wr (lpcc_parcor_coef lpcc) 0 0 = Inr ((lpcc_parcor_coef lpcc)[0 := 0])"
    "wr ((lpcc_parcor_coef lpcc)[0 := 0]) 1 (r1 / Fin r0) = Inr p1"
    "rd a2 1 = Inr (- r1 / Fin r0)"
    "wr u0 0 1 = Inr (u0[0 := 1])" "wr (u0[0 := 1]) 1 0 = Inr u2"
    "wr v0 0 0 = Inr (v0[0 := 0])" "wr (v0[0 := 0]) 1 1 = Inr v2"
    using b2 by (simp_all add: wr_Inr a2_def p1_def u2_def v2_def)
  have l2: "length a2 = length (lpcc_a_vec lpcc)" "length u2 = length (lpcc_u_vec lpcc)"
    "length v2 = length (lpcc_v_vec lpcc)" "length p1 = length (lpcc_parcor_coef lpcc)"
    by (simp_all add: a2_def u2_def v2_def p1_def l0)
  have "\<exists>a' u' v' parcor' ek'.
           for_loop 1 coef_order (ld_body ndebug auto_corr)
             (a2, u2, v2, p1, Fin r0 + r1 * (- r1 / Fin r0)) = Inr (a', u', v', parcor', ek')
         \<and> length a' = length a2
         \<and> (\<forall>k. 1 \<le> k \<and> k \<le> coef_order \<longrightarrow> (\<exists>p. parcor' ! k = Fin p \<and> \<bar>p\<bar> < 1))"
  proof (cases "coef_order = 0")
    case True
    then show ?thesis by (simp add: for_loop_done)
  next
    case False
    then have ord: "1 \<le> coef_order" by simp
    have r1v: "r1 = Fin (acorr w 1)" using ac [of 1] ord by (simp add: r1_def auto_corr_def)
    have nz: "r0 \<noteq> 0" using pw by (simp add: r0_def)
    have ac': "j < length auto_corr \<and> auto_corr ! j = Fin (acorr w j)" if "j \<le> coef_order" for j
      using ac [of j] that len(7) by (simp add: auto_corr_def)
    have a01: "a2 ! 0 = Fin 1" "a2 ! 1 = Fin (- acorr w 1 / acorr w 0)"
      and p1v: "p1 ! 1 = Fin (acorr w 1 / acorr w 0)"
      using b2 nz by (simp_all add: a2_def p1_def r1v r0_def one_dbl_def)
    have e1: "Fin r0 + r1 * (- r1 / Fin r0) = Fin (acorr w 0 + acorr w 1 * (- acorr w 1 / acorr w 0))"
      using nz by (simp add: r1v r0_def)
    have l: "coef_order + 2 \<le> length a2" "coef_order + 2 \<le> length u2" "coef_order + 2 \<le> length v2"
      "coef_order + 1 \<le> length p1"
      using len l2 by simp_all
    from ld_main_loop [OF pw ord l ac' a01 p1v, of ndebug]
    show ?thesis unfolding e1 by blast
  qed
  then obtain a' u' v' parcor' ek' where loop: "for_loop 1 coef_order (ld_body ndebug auto_corr)
             (a2, u2, v2, p1, Fin r0 + r1 * (- r1 / Fin r0)) = Inr (a', u', v', parcor', ek')"
    and la': "length a' = length a2"
    and pb: "\<forall>k. 1 \<le> k \<and> k \<le> coef_order \<longrightarrow> (\<exists>p. parcor' ! k = Fin p \<and> \<bar>p\<bar> < 1)"
    by blast
  have cp: "memcpy_n (lpcc_lpc_coef lpcc) a' (coef_order + 1)
      = Inr (take (coef_order + 1) a' @ drop (coef_order + 1) (lpcc_lpc_coef lpcc))"
    using len la' l2 by (simp add: memcpy_n_def)
  have "LPC_LevinsonDurbinRecursion ndebug lpcc coef_order
      = Inr (LPC_ERROR_OK, lpcc\<lparr>lpcc_a_vec := a', lpcc_u_vec := u', lpcc_v_vec := v',
           lpcc_lpc_coef := take (coef_order + 1) a' @ drop (coef_order + 1) (lpcc_lpc_coef lpcc),
           lpcc_parcor_coef := parcor'\<rparr>)"
    unfolding LPC_LevinsonDurbinRecursion_def ld_body_def [symmetric]
    unfolding Let_def auto_corr_def [symmetric]
    by (simp only: rd0 rd1 ng if_False init w loop cp bnd_Inr prod.case)
  then show ?thesis using pb by simp
qed

subsection \<open>LPC_CalculateAutoCorrelation computes the biased autocorrelation\<close>

lemma sum_lessThan_add:
  fixes f :: "nat \<Rightarrow> real"
  shows "(\<Sum>i<a + b. f i) = (\<Sum>i<a. f i) + (\<Sum>i<b. f (a + i))"
  by (induction b) (simp_all add: add.assoc [symmetric])

lemma sum_blocks:
  fixes f :: "nat \<Rightarrow> real"
  shows "(\<Sum>m<L. \<Sum>i<b. f (m * b + i)) = (\<Sum>j<L * b. f j)"
proof (induction L)
  case 0
  show ?case by simp
next
  case (Suc L)
  have "(\<Sum>j<Suc L * b. f j) = (\<Sum>j<L * b + b. f j)" by (simp add: add.commute)
  also have "\<dots> = (\<Sum>j<L * b. f j) + (\<Sum>i<b. f (L * b + i))" by (rule sum_lessThan_add)
  finally show ?case using Suc by simp
qed

lemma autocorr_sum_split:
  assumes fit: "L * (2 * lag) + lag \<le> length w"
  shows "(\<Sum>i<lag. \<Sum>m<L. w ! (m * (2 * lag) + lag + i)
             * (w ! (m * (2 * lag) + i) + w ! (m * (2 * lag) + 2 * lag + i)))
         + (\<Sum>i<length w - L * (2 * lag) - lag. w ! (L * (2 * lag) + lag + i) * w ! (L * (2 * lag) + i))
         = acorr w lag"
proof -
  define c where "c j = w ! (j + lag) * w ! j" for j
  let ?b = "2 * lag"
  have tm: "w ! (m * ?b + lag + i) * (w ! (m * ?b + i) + w ! (m * ?b + ?b + i))
        = c (m * ?b + i) + c (m * ?b + (lag + i))" for m i
  proof -
    have "m * ?b + i + lag = m * ?b + lag + i" "m * ?b + (lag + i) + lag = m * ?b + ?b + i"
      "m * ?b + (lag + i) = m * ?b + lag + i"
      by simp_all
    then show ?thesis unfolding c_def by (simp only: distrib_left mult.commute)
  qed
  have "(\<Sum>i<lag. \<Sum>m<L. w ! (m * ?b + lag + i) * (w ! (m * ?b + i) + w ! (m * ?b + ?b + i)))
      = (\<Sum>m<L. \<Sum>i<lag. c (m * ?b + i) + c (m * ?b + (lag + i)))"
    unfolding tm by (rule sum.swap)
  also have "\<dots> = (\<Sum>m<L. \<Sum>i<lag + lag. c (m * ?b + i))"
    by (simp add: sum_lessThan_add sum.distrib)
  also have "\<dots> = (\<Sum>m<L. \<Sum>i<?b. c (m * ?b + i))" by (simp add: mult_2)
  also have "\<dots> = (\<Sum>j<L * ?b. c j)" by (rule sum_blocks)
  finally have first: "(\<Sum>i<lag. \<Sum>m<L. w ! (m * ?b + lag + i) * (w ! (m * ?b + i) + w ! (m * ?b + ?b + i)))
      = (\<Sum>j<L * ?b. c j)" .
  have second: "(\<Sum>i<length w - L * ?b - lag. w ! (L * ?b + lag + i) * w ! (L * ?b + i))
      = (\<Sum>i<length w - L * ?b - lag. c (L * ?b + i))"
    unfolding c_def by (rule sum.cong [OF refl]) (simp add: add.assoc add.left_commute add.commute)
  have "L * ?b + (length w - L * ?b - lag) = length w - lag" using fit by simp
  then have "(\<Sum>j<length w - lag. c j) = (\<Sum>j<L * ?b. c j) + (\<Sum>i<length w - L * ?b - lag. c (L * ?b + i))"
    using sum_lessThan_add [of c "L * ?b" "length w - L * ?b - lag"] by simp
  then show ?thesis unfolding first second by (simp add: acorr_def c_def)
qed

lemma accum_loop:
  fixes ac :: "dbl list"
  assumes step: "\<And>j t s'. j < n \<Longrightarrow> length t = length ac \<Longrightarrow> t ! lag = Fin s'
                   \<Longrightarrow> body j t = Inr (t[lag := Fin (s' + c j)])"
    and lag: "lag < length ac" and s: "ac ! lag = Fin s"
  shows "for_loop 0 n body ac = Inr (ac[lag := Fin (s + (\<Sum>j<n. c j))])"
proof -
  have "\<exists>t. for_loop 0 n body ac = Inr t \<and> t = ac[lag := Fin (s + (\<Sum>j<n. c j))]"
  proof (rule for_loop_inv [where I = "\<lambda>j t. t = ac[lag := Fin (s + (\<Sum>i<j. c i))]"])
    show "ac = ac[lag := Fin (s + (\<Sum>i<0. c i))]" using list_update_id [of ac lag] s by simp
    show "0 \<le> n" by simp
    show "\<exists>t'. body j t = Inr t' \<and> t' = ac[lag := Fin (s + (\<Sum>i<Suc j. c i))]"
      if "j < n" "t = ac[lag := Fin (s + (\<Sum>i<j. c i))]" for j t
    proof -
      have "length t = length ac" "t ! lag = Fin (s + (\<Sum>i<j. c i))"
        using that(2) lag by simp_all
      from step [OF that(1) this] show ?thesis by (simp add: that(2) add.assoc)
    qed
  qed
  then show ?thesis by simp
qed

lemma group_count:
  fixes lag N :: nat
  assumes "lag \<le> N" and "1 \<le> lag"
  shows "(if 3 * lag < N then 1 + (N - 3 * lag) div (2 * lag) else 0) * (2 * lag) + lag \<le> N"
proof (cases "3 * lag < N")
  case True
  have "(N - 3 * lag) div (2 * lag) * (2 * lag) \<le> N - 3 * lag" by simp
  then have "(1 + (N - 3 * lag) div (2 * lag)) * (2 * lag) \<le> 2 * lag + (N - 3 * lag)"
    by (simp add: algebra_simps)
  then show ?thesis using True by simp
next
  case False
  then show ?thesis using assms by simp
qed

lemma autocorr_lag_step:
  fixes data t :: "dbl list" and w :: "real list"
  assumes dat: "length w \<le> length data" "\<And>i. i < length w \<Longrightarrow> data ! i = Fin (w ! i)"
    and N: "length w < 2 ^ 32"
    and lag: "1 \<le> lag" "lag \<le> length w" "lag < length t"
    and z: "t ! lag = Fin 0"
  shows "autocorr_lag_body data (length w) lag t = Inr (t[lag := Fin (acorr w lag)])"
proof -
  define N where "N = length w"
  define lag2 where "lag2 = 2 * lag"
  define L where "L = (if 3 * lag < N then 1 + (N - 3 * lag) div lag2 else 0)"
  have fit: "L * lag2 + lag \<le> N"
    unfolding L_def lag2_def N_def by (rule group_count) (use lag in simp_all)
  have rdw: "rd data i = Inr (Fin (w ! i))" if "i < N" for i
    using that dat by (simp add: N_def)
  define c3 where "c3 i m = w ! (m * lag2 + lag + i) * (w ! (m * lag2 + i) + w ! (m * lag2 + lag2 + i))" for i m
  define c2 where "c2 i = w ! (L * lag2 + lag + i) * w ! (L * lag2 + i)" for i
  have inner: "for_loop 0 L
          (\<lambda>m ac.
             bnd (rd data (m * lag2 + lag + i)) (\<lambda>x.
                bnd (rd data (m * lag2 + i)) (\<lambda>y.
                bnd (rd data (m * lag2 + lag2 + i)) (\<lambda>z.
                upd ac lag (\<lambda>v. v + x * (y + z))))))
          t' = Inr (t'[lag := Fin (s' + (\<Sum>m<L. c3 i m))])"
    if i: "i < lag" and t': "length t' = length t" "t' ! lag = Fin s'" for i t' s'
  proof (rule accum_loop)
    show "lag < length t'" using lag t' by simp
    show "t' ! lag = Fin s'" by (rule t')
    fix m t'' s'' assume m: "m < L" and t'': "length t'' = length t'" "t'' ! lag = Fin s''"
    have "(m + 1) * lag2 \<le> L * lag2" using m by (intro mult_le_mono1) simp
    then have b: "m * lag2 + lag2 + i < N" "m * lag2 + i < N" "m * lag2 + lag + i < N"
      using fit i by (simp_all add: lag2_def)
    have lt: "lag < length t''" using lag t' t'' by simp
    show "bnd (rd data (m * lag2 + lag + i)) (\<lambda>x.
                bnd (rd data (m * lag2 + i)) (\<lambda>y.
                bnd (rd data (m * lag2 + lag2 + i)) (\<lambda>z.
                upd t'' lag (\<lambda>v. v + x * (y + z)))))
          = Inr (t''[lag := Fin (s'' + c3 i m)])"
      using lt by (simp add: Let_def rdw [OF b(1)] rdw [OF b(2)] rdw [OF b(3)] t''(2) c3_def)
  qed
  have outer: "for_loop 0 lag
          (\<lambda>i ac.
             for_loop 0 L
               (\<lambda>m ac.
                  bnd (rd data (m * lag2 + lag + i)) (\<lambda>x.
                     bnd (rd data (m * lag2 + i)) (\<lambda>y.
                     bnd (rd data (m * lag2 + lag2 + i)) (\<lambda>z.
                     upd ac lag (\<lambda>v. v + x * (y + z))))))
               ac)
          t = Inr (t[lag := Fin (0 + (\<Sum>i<lag. \<Sum>m<L. c3 i m))])"
    by (rule accum_loop) (use inner lag z in simp_all)
  define t1 where "t1 = t[lag := Fin (0 + (\<Sum>i<lag. \<Sum>m<L. c3 i m))]"
  have cnt: "u32_sub (u32_sub N (L * lag2)) lag = N - L * lag2 - lag"
  proof -
    have "u32_sub N (L * lag2) = N - L * lag2"
      by (rule u32_sub_nowrap) (use fit N in \<open>simp_all add: N_def\<close>)
    moreover have "u32_sub (N - L * lag2) lag = N - L * lag2 - lag"
      by (rule u32_sub_nowrap) (use fit N in \<open>simp_all add: N_def\<close>)
    ultimately show ?thesis by simp
  qed
  have rest: "for_loop 0 (N - L * lag2 - lag)
          (\<lambda>i ac.
             bnd (rd data (L * lag2 + lag + i)) (\<lambda>x.
             bnd (rd data (L * lag2 + i)) (\<lambda>y.
             upd ac lag (\<lambda>v. v + x * y))))
          t1 = Inr (t1[lag := Fin ((\<Sum>i<lag. \<Sum>m<L. c3 i m) + (\<Sum>i<N - L * lag2 - lag. c2 i))])"
  proof (rule accum_loop)
    show "lag < length t1" using lag by (simp add: t1_def)
    show "t1 ! lag = Fin (\<Sum>i<lag. \<Sum>m<L. c3 i m)" using lag by (simp add: t1_def)
    fix i t'' s'' assume i: "i < N - L * lag2 - lag" and t'': "length t'' = length t1" "t'' ! lag = Fin s''"
    have b: "L * lag2 + lag + i < N" "L * lag2 + i < N" using i by simp_all
    have lt: "lag < length t''" using lag t'' by (simp add: t1_def)
    show "bnd (rd data (L * lag2 + lag + i)) (\<lambda>x.
             bnd (rd data (L * lag2 + i)) (\<lambda>y.
             upd t'' lag (\<lambda>v. v + x * y)))
          = Inr (t''[lag := Fin (s'' + c2 i)])"
      using lt by (simp add: rdw [OF b(1)] rdw [OF b(2)] t''(2) c2_def)
  qed
  have total: "(\<Sum>i<lag. \<Sum>m<L. c3 i m) + (\<Sum>i<N - L * lag2 - lag. c2 i) = acorr w lag"
    unfolding c3_def c2_def lag2_def N_def
    by (rule autocorr_sum_split) (use fit in \<open>simp add: lag2_def N_def\<close>)
  have fin: "t1[lag := Fin (acorr w lag)] = t[lag := Fin (acorr w lag)]"
    by (simp add: t1_def)
  show ?thesis
    unfolding autocorr_lag_body_def N_def [symmetric]
    unfolding Let_def lag2_def [symmetric] L_def [symmetric]
    by (simp only: outer t1_def [symmetric] bnd_Inr cnt rest total fin)
qed

lemma autocorr_zero_loop:
  fixes ac :: "dbl list"
  assumes "n \<le> length ac"
  shows "\<exists>ac0. for_loop 0 n (\<lambda>i ac. wr ac i 0) ac = Inr ac0 \<and> length ac0 = length ac
           \<and> (\<forall>k<n. ac0 ! k = Fin 0)"
proof -
  define I where "I j t \<longleftrightarrow> length t = length ac \<and> (\<forall>k<j. t ! k = Fin 0)" for j and t :: "dbl list"
  have "\<exists>t. for_loop 0 n (\<lambda>i ac. wr ac i 0) ac = Inr t \<and> I n t"
  proof (rule for_loop_inv)
    show "I 0 ac" by (simp add: I_def)
    show "0 \<le> n" by simp
    show "\<exists>t'. wr t j 0 = Inr t' \<and> I (Suc j) t'" if "j < n" "I j t" for j t
      using that assms by (auto simp: I_def wr_Inr nth_list_update less_Suc_eq zero_dbl_def)
  qed
  then show ?thesis by (auto simp: I_def)
qed

lemma autocorr_computes:
  fixes data auto_corr :: "dbl list" and w :: "real list"
  assumes dat: "length w \<le> length data" "\<And>i. i < length w \<Longrightarrow> data ! i = Fin (w ! i)"
    and N: "length w < 2 ^ 32"
    and ord: "1 \<le> order" "order \<le> length w + 1" "ndebug \<or> order \<le> length w"
    and len: "order \<le> length auto_corr"
  shows "\<exists>ac. LPC_CalculateAutoCorrelation ndebug data (length w) auto_corr order
                = Inr (LPC_ERROR_OK, ac)
              \<and> length ac = length auto_corr \<and> (\<forall>k<order. ac ! k = Fin (acorr w k))"
proof -
  have asrt: "c_assert ndebug (order \<le> length w) = Inr ()"
    using ord(3) by (auto simp: c_assert_def)
  from autocorr_zero_loop [OF len]
  obtain ac0 where z: "for_loop 0 order (\<lambda>i ac. wr ac i 0) auto_corr = Inr ac0"
    and l0: "length ac0 = length auto_corr" and v0: "\<And>k. k < order \<Longrightarrow> ac0 ! k = Fin 0"
    by blast
  have pos: "0 < length ac0" using ord(1) len l0 by linarith
  have first: "for_loop 0 (length w)
                 (\<lambda>i ac. bnd (rd data i) (\<lambda>d. upd ac 0 (\<lambda>v. v + d * d))) ac0
               = Inr (ac0[0 := Fin (0 + (\<Sum>i<length w. w ! i * w ! i))])"
  proof (rule accum_loop)
    show "0 < length ac0" by (rule pos)
    show "ac0 ! 0 = Fin 0" using v0 [of 0] ord(1) by simp
    fix j t s' assume j: "j < length w" and t: "length t = length ac0" "t ! 0 = Fin s'"
    have "0 < length t" using pos t by simp
    then show "bnd (rd data j) (\<lambda>d. upd t 0 (\<lambda>v. v + d * d)) = Inr (t[0 := Fin (s' + w ! j * w ! j)])"
      using dat j t(2) by simp
  qed
  define ac1 where "ac1 = ac0[0 := Fin (0 + (\<Sum>i<length w. w ! i * w ! i))]"
  define I where "I lag t \<longleftrightarrow> length t = length auto_corr \<and> (\<forall>k<lag. t ! k = Fin (acorr w k))
      \<and> (\<forall>k. lag \<le> k \<and> k < order \<longrightarrow> t ! k = Fin 0)" for lag and t :: "dbl list"
  have "\<exists>t. for_loop 1 order (autocorr_lag_body data (length w)) ac1 = Inr t \<and> I order t"
  proof (rule for_loop_inv)
    show "1 \<le> order" by (rule ord)
    show "I 1 ac1"
      unfolding I_def using pos l0 v0 by (auto simp: ac1_def acorr_def nth_list_update)
    show "\<exists>t'. autocorr_lag_body data (length w) lag t = Inr t' \<and> I (Suc lag) t'"
      if lg: "1 \<le> lag" "lag < order" and it: "I lag t" for lag t
    proof -
      have lt: "length t = length auto_corr" and dn: "\<And>k. k < lag \<Longrightarrow> t ! k = Fin (acorr w k)"
        and todo: "\<And>k. lag \<le> k \<Longrightarrow> k < order \<Longrightarrow> t ! k = Fin 0"
        using it by (simp_all add: I_def)
      have b: "lag \<le> length w" "lag < length t" using lg ord(2) len lt by simp_all
      have run: "autocorr_lag_body data (length w) lag t = Inr (t[lag := Fin (acorr w lag)])"
        by (rule autocorr_lag_step) (use dat N lg b todo [OF order_refl lg(2)] in simp_all)
      have "I (Suc lag) (t[lag := Fin (acorr w lag)])"
        unfolding I_def using lt dn todo b by (auto simp: nth_list_update less_Suc_eq)
      then show ?thesis using run by blast
    qed
  qed
  then obtain ac where loop: "for_loop 1 order (autocorr_lag_body data (length w)) ac1 = Inr ac"
    and res: "I order ac" by blast
  have "LPC_CalculateAutoCorrelation ndebug data (length w) auto_corr order = Inr (LPC_ERROR_OK, ac)"
    unfolding LPC_CalculateAutoCorrelation_def autocorr_lag_body_def [symmetric]
    by (simp only: asrt z first ac1_def [symmetric] loop bnd_Inr)
  then show ?thesis using res by (simp add: I_def)
qed

lemma create_lengths:
  assumes "LPCCalculator_Create config work = Some lpcc"
  shows "length (lpcc_a_vec lpcc) = cfg_max_order config + 2"
    and "length (lpcc_u_vec lpcc) = cfg_max_order config + 2"
    and "length (lpcc_v_vec lpcc) = cfg_max_order config + 2"
    and "length (lpcc_auto_corr lpcc) = cfg_max_order config + 1"
    and "length (lpcc_lpc_coef lpcc) = cfg_max_order config + 1"
    and "length (lpcc_parcor_coef lpcc) = cfg_max_order config + 1"
    and "1 \<le> cfg_max_order config"
  using assms unfolding LPCCalculator_Create_def Let_def
  by (auto split: if_splits)

text \<open>
  C9. A calculator as \<open>LPCCalculator_Create\<close> returns it, an order within its
  \<open>max_order\<close>, and a block \<open>w\<close> of finite samples that is longer than the order (or, in
  a build with \<open>NDEBUG\<close>, at least as long): \<open>LPC_CalculateAutoCorrelation\<close> returns
  the biased autocorrelation of the block, and whenever the zero-power guard of
  \<open>LPC_LevinsonDurbinRecursion\<close> does not fire on it, the recursion returns
  \<open>LPC_ERROR_OK\<close> (so both of its assertions hold, also in a debug build) and every
  PARCOR coefficient \<open>parcor[k]\<close> with \<open>1 <= k <= coef_order\<close>, the negated reflection
  coefficient, is a finite number of magnitude strictly below 1. The arithmetic on the
  finite doubles is exact.
\<close>

theorem levinson_durbin_reflection_bound:
  fixes w :: "real list"
  assumes cr: "LPCCalculator_Create config work = Some lpcc"
    and ord: "coef_order \<le> cfg_max_order config"
    and N: "length w < 2 ^ 32"
    and ns: "coef_order < length w \<or> ndebug \<and> coef_order \<le> length w"
  shows "\<exists>ac. LPC_CalculateAutoCorrelation ndebug (map Fin w @ rest) (length w)
                  (lpcc_auto_corr lpcc) (coef_order + 1) = Inr (LPC_ERROR_OK, ac)
          \<and> (\<not> dlt (dfabs (ac ! 0)) FLT_EPSILON \<longrightarrow>
               (\<exists>lpcc'. LPC_LevinsonDurbinRecursion ndebug (lpcc\<lparr>lpcc_auto_corr := ac\<rparr>) coef_order
                           = Inr (LPC_ERROR_OK, lpcc')
                  \<and> (\<forall>k. 1 \<le> k \<and> k \<le> coef_order \<longrightarrow>
                        (\<exists>p. lpcc_parcor_coef lpcc' ! k = Fin p \<and> \<bar>p\<bar> < 1))))"
proof -
  note cl = create_lengths [OF cr]
  have "\<exists>ac. LPC_CalculateAutoCorrelation ndebug (map Fin w @ rest) (length w)
                  (lpcc_auto_corr lpcc) (coef_order + 1) = Inr (LPC_ERROR_OK, ac)
              \<and> length ac = length (lpcc_auto_corr lpcc)
              \<and> (\<forall>k<coef_order + 1. ac ! k = Fin (acorr w k))"
  proof (rule autocorr_computes)
    show "length w \<le> length (map Fin w @ rest)" by simp
    show "(map Fin w @ rest) ! i = Fin (w ! i)" if "i < length w" for i
      using that by (simp add: nth_append)
    show "length w < 2 ^ 32" by (rule N)
    show "1 \<le> coef_order + 1" by simp
    show "coef_order + 1 \<le> length w + 1" using ns by auto
    show "ndebug \<or> coef_order + 1 \<le> length w" using ns by auto
    show "coef_order + 1 \<le> length (lpcc_auto_corr lpcc)" using ord cl(4) by simp
  qed
  then obtain ac where run: "LPC_CalculateAutoCorrelation ndebug (map Fin w @ rest) (length w)
                  (lpcc_auto_corr lpcc) (coef_order + 1) = Inr (LPC_ERROR_OK, ac)"
    and lac: "length ac = length (lpcc_auto_corr lpcc)"
    and vac: "\<And>k. k \<le> coef_order \<Longrightarrow> ac ! k = Fin (acorr w k)"
    by auto
  have "\<exists>lpcc'. LPC_LevinsonDurbinRecursion ndebug (lpcc\<lparr>lpcc_auto_corr := ac\<rparr>) coef_order
                           = Inr (LPC_ERROR_OK, lpcc')
                  \<and> (\<forall>k. 1 \<le> k \<and> k \<le> coef_order \<longrightarrow>
                        (\<exists>p. lpcc_parcor_coef lpcc' ! k = Fin p \<and> \<bar>p\<bar> < 1))"
    if g: "\<not> dlt (dfabs (ac ! 0)) FLT_EPSILON"
    by (rule levinson_recursion [where w = w]) (use g ord cl lac vac in simp_all)
  then show ?thesis using run by blast
qed

text \<open>
  The theorem on the block \<open>[1, 2, 1]\<close> at order 2: the autocorrelation is
  \<open>[6, 4, 1]\<close>, the guard does not fire.
\<close>

theorem levinson_durbin_reflection_bound_witness:
  "LPC_CalculateAutoCorrelation False [Fin 1, Fin 2, Fin 1] 3 (lpcc_auto_corr calc_3_2) 3
     = Inr (LPC_ERROR_OK, [Fin 6, Fin 4, Fin 1, Fin 0])
   \<and> \<not> dlt (dfabs (Fin 6)) FLT_EPSILON
   \<and> (\<exists>lpcc'. LPC_LevinsonDurbinRecursion False
                  (calc_3_2\<lparr>lpcc_auto_corr := [Fin 6, Fin 4, Fin 1, Fin 0]\<rparr>) 2
                = Inr (LPC_ERROR_OK, lpcc')
          \<and> (\<exists>p. lpcc_parcor_coef lpcc' ! 1 = Fin p \<and> \<bar>p\<bar> < 1)
          \<and> (\<exists>p. lpcc_parcor_coef lpcc' ! 2 = Fin p \<and> \<bar>p\<bar> < 1))"
proof -
  have ac: "LPC_CalculateAutoCorrelation False [Fin 1, Fin 2, Fin 1] 3 (lpcc_auto_corr calc_3_2) 3
     = Inr (LPC_ERROR_OK, [Fin 6, Fin 4, Fin 1, Fin 0])"
    by (simp add: LPC_CalculateAutoCorrelation_def calc_3_2_def for_loop.simps dbl_ev mem_ev
          u32_sub_def)
  have g: "\<not> dlt (dfabs (Fin 6)) FLT_EPSILON" by (simp add: FLT_EPSILON_def)
  have h: "(2 :: nat) \<le> cfg_max_order \<lparr>cfg_max_order = 3, cfg_max_num_samples = 2\<rparr>"
    "length [1, 2, 1 :: real] < 2 ^ 32"
    "2 < length [1, 2, 1 :: real] \<or> False \<and> 2 \<le> length [1, 2, 1 :: real]"
    by simp_all
  obtain lpcc' where r: "LPC_LevinsonDurbinRecursion False
                  (calc_3_2\<lparr>lpcc_auto_corr := [Fin 6, Fin 4, Fin 1, Fin 0]\<rparr>) 2
                = Inr (LPC_ERROR_OK, lpcc')"
    and b: "\<And>k. 1 \<le> k \<Longrightarrow> k \<le> 2 \<Longrightarrow> \<exists>p. lpcc_parcor_coef lpcc' ! k = Fin p \<and> \<bar>p\<bar> < 1"
    using levinson_durbin_reflection_bound [OF calc_3_2_created h, of "[]"] ac g
    by (auto simp: numeral_3_eq_3)
  show ?thesis using ac g r b [of 1] b [of 2] by simp
qed

end
